theory Spec2Isabelle
  imports Complex_Main "HOL-Library.Sublist" "HOL-Library.Monad_Syntax"
begin

section \<open>Strings and values of the runtime\<close>

text \<open>
  A JavaScript string is a sequence of UTF-16 code units, and the regular expressions of
  the checker (written without the \<open>u\<close> flag) match code unit by code unit. A string is
  therefore a list of code units, each a natural number. \<open>asc\<close> turns an ASCII literal of
  the source into such a list.
\<close>

type_synonym jsstring = "nat list"

definition asc :: "string \<Rightarrow> jsstring" where
  "asc s = map of_char s"

text \<open>\<open>String.prototype.includes\<close>\<close>

fun includesStr :: "jsstring \<Rightarrow> jsstring \<Rightarrow> bool" where
  "includesStr [] sub = (sub = [])"
| "includesStr (c # cs) sub = (prefix sub (c # cs) \<or> includesStr cs sub)"

text \<open>Decimal rendering of a number inside a template literal, as in \<open>`HTTP ${res.status}`\<close>.\<close>

function showNat :: "nat \<Rightarrow> jsstring" where
  "showNat n = (if n < 10 then [48 + n] else showNat (n div 10) @ [48 + n mod 10])"
  by pat_completeness auto
termination
  by (relation "measure (\<lambda>n. n)") auto

declare showNat.simps [simp del]

text \<open>
  What a rejected promise carries: an \<open>Error\<close> object with its \<open>name\<close> and \<open>message\<close>, or
  any other value, kept as its \<open>String(e)\<close>. The catch clauses of \<open>checkLink\<close> normalise
  the second kind with \<open>new Error(String(e))\<close>, whose name is \<open>Error\<close>.
\<close>

datatype js_error = Error (err_name: jsstring) (err_message: jsstring)

datatype thrown = ThrownError js_error | ThrownOther jsstring

fun toError :: "thrown \<Rightarrow> js_error" where
  "toError (ThrownError e) = e"
| "toError (ThrownOther s) = Error (asc ''Error'') s"

text \<open>An optional boolean field in a condition: only \<open>true\<close> is truthy.\<close>

fun truthy :: "bool option \<Rightarrow> bool" where
  "truthy (Some True) = True"
| "truthy _ = False"

text \<open>An optional string in a condition: truthy when present and not empty.\<close>

fun truthyStr :: "jsstring option \<Rightarrow> bool" where
  "truthyStr (Some (c # cs)) = True"
| "truthyStr _ = False"

section \<open>Numbers of the runtime\<close>

text \<open>
  A JavaScript number is an IEEE 754 double. The integers the program computes with are
  far below \<open>2 ^ 53\<close> and exact; the one operation that rounds is the product
  \<open>Math.random() * 100\<close>. A double is a rational number, and the product of two doubles
  is the exact product rounded to the nearest double, a tie going to the even
  significand.

  \<open>halfEven q\<close> is the integer nearest to \<open>q\<close>, the even one at a tie. \<open>binade x e\<close>
  searches downwards from \<open>e\<close> for the exponent of \<open>x > 0\<close>: the largest \<open>b\<close> with
  \<open>2 powi b \<le> x\<close>, and \<open>- 1022\<close> for a subnormal \<open>x\<close>. \<open>roundMag x\<close> rounds a magnitude
  to 53 significant bits in its binade (below \<open>2 ^ 1024\<close>; overflow to infinity is not
  modelled), and \<open>roundDouble\<close> rounds a signed value.
\<close>

definition halfEven :: "rat \<Rightarrow> int" where
  "halfEven q =
     (let f = \<lfloor>q\<rfloor>; d = q - of_int f
      in if d < 1 / 2 then f else if 1 / 2 < d then f + 1 else if even f then f else f + 1)"

function binade :: "rat \<Rightarrow> int \<Rightarrow> int" where
  "binade x e = (if e \<le> - 1022 \<or> 2 powi e \<le> x then e else binade x (e - 1))"
  by pat_completeness auto
termination
  by (relation "measure (\<lambda>(x, e). nat (e + 1022))") auto

declare binade.simps [simp del]

definition roundMag :: "rat \<Rightarrow> rat" where
  "roundMag x =
     (if x = 0 then 0
      else let u = 2 powi (binade x 1023 - 52) in of_int (halfEven (x / u)) * u)"

definition roundDouble :: "rat \<Rightarrow> rat" where
  "roundDouble x = (if x < 0 then - roundMag (- x) else roundMag x)"

definition isDouble :: "rat \<Rightarrow> bool" where
  "isDouble r \<longleftrightarrow> roundDouble r = r"

definition fmul :: "rat \<Rightarrow> rat \<Rightarrow> rat" where
  "fmul a b = roundDouble (a * b)"

section \<open>Data model\<close>

record FriendLink =
  name :: jsstring
  description :: jsstring
  url :: jsstring
  avatar :: jsstring
  addDate :: "jsstring option"
  recommended :: "bool option"
  disconnected :: "bool option"

datatype LinkStatus = LS_ok | LS_timeout | LS_error

record LinkCheckResult =
  r_name :: jsstring
  r_url :: jsstring
  r_avatar :: jsstring
  status :: "LinkStatus option"
  httpStatus :: "nat option"
  responseTime :: "int option"
  reason :: "jsstring option"
  avatarStatus :: "LinkStatus option"
  avatarHttpStatus :: "nat option"
  avatarResponseTime :: "int option"

record DisconnectedInfo =
  d_name :: jsstring
  d_url :: jsstring
  d_reason :: jsstring

text \<open>What \<open>fetchUrl\<close> resolves to: \<open>{ ok, status, time }\<close>.\<close>

record response =
  ok :: bool
  res_status :: nat
  time :: int

section \<open>The environment and the trace of effects\<close>

text \<open>
  The network and the random number generator are outside the program. \<open>net e n u\<close> is
  what the \<open>n\<close>-th call of \<open>fetch\<close> of the run (counted from 0) does for the address \<open>u\<close>:
  it resolves to a response or rejects. The timer of \<open>fetchUrl\<close> aborts the request after
  \<open>CHECK_TIMEOUT\<close> milliseconds; the runtime then rejects the request with an error named
  \<open>AbortError\<close>, which is one of the rejections \<open>net\<close> can deliver. \<open>random e k\<close> is the value
  of the \<open>k\<close>-th call of \<open>Math.random()\<close>, a double.

  \<open>readData e\<close> is what \<open>fs.readFile(DATA_PATH, 'utf-8')\<close> gives, the text of the file or a
  rejection, and \<open>writeFails e p\<close> says whether \<open>fs.writeFile\<close> to the path \<open>p\<close> rejects.

  The world records what the program did: the addresses probed, the delays waited, both
  in order, the number of random draws, and in \<open>trace\<close> the probes and the waits together
  in the order in which they happened. Console output is not modelled.
\<close>

datatype path = DATA_PATH | OUTPUT_PATH

record env =
  net :: "nat \<Rightarrow> jsstring \<Rightarrow> thrown + response"
  random :: "nat \<Rightarrow> rat"
  readData :: "thrown + jsstring"
  writeFails :: "path \<Rightarrow> bool"

datatype event = Probe jsstring | Wait int

record world =
  fetched :: "jsstring list"
  slept :: "int list"
  rolls :: nat
  trace :: "event list"

definition CHECK_TIMEOUT :: nat where
  "CHECK_TIMEOUT = 15000"

definition MAX_RETRIES :: nat where
  "MAX_RETRIES = 3"

definition RETRY_DELAY :: int where
  "RETRY_DELAY = 1000"

definition abortError :: thrown where
  "abortError = ThrownError (Error (asc ''AbortError'') (asc ''This operation was aborted''))"

section \<open>fetchUrl\<close>

text \<open>
  \<open>fetchUrl\<close> has a \<open>try\<close> with a \<open>finally\<close> and no \<open>catch\<close>: when \<open>fetch\<close> rejects,
  the timer is cleared and the rejection goes on to the caller (\<open>Inl\<close>).
\<close>

definition fetchUrl :: "env \<Rightarrow> jsstring \<Rightarrow> world \<Rightarrow> (thrown + response) \<times> world" where
  "fetchUrl e u w =
     (net e (length (fetched w)) u,
      w\<lparr>fetched := fetched w @ [u], trace := trace w @ [Probe u]\<rparr>)"

section \<open>checkLink\<close>

text \<open>
  The body of the \<open>try\<close> of one loop iteration: the probe, then
  \<open>if (!res.ok) throw new Error(`HTTP ${res.status}`)\<close>.
\<close>

definition tryBody :: "env \<Rightarrow> jsstring \<Rightarrow> world \<Rightarrow> (thrown + response) \<times> world" where
  "tryBody e u w =
     (case fetchUrl e u w of
        (Inl t, w1) \<Rightarrow> (Inl t, w1)
      | (Inr res, w1) \<Rightarrow>
          if \<not> ok res
          then (Inl (ThrownError (Error (asc ''Error'') (asc ''HTTP '' @ showNat (res_status res)))), w1)
          else (Inr res, w1))"

text \<open>
  The wait before the next attempt:
  \<open>RETRY_DELAY * 2 ** i + Math.floor(Math.random() * 100)\<close>, then a timer of that length.
  The product is the product of doubles, \<open>fmul\<close>; the power, the sum and the floor are
  exact on these values. The wait recorded is the delay handed to the timer.
\<close>

definition backoff :: "env \<Rightarrow> nat \<Rightarrow> world \<Rightarrow> world" where
  "backoff e i w =
     (let delay = RETRY_DELAY * 2 ^ i + \<lfloor>fmul (random e (rolls w)) 100\<rfloor>
      in w\<lparr>slept := slept w @ [delay], rolls := rolls w + 1, trace := trace w @ [Wait delay]\<rparr>)"

text \<open>
  The retry loop \<open>for (let i = 0; i < MAX_RETRIES; i++) { try ... catch ... }\<close>. The source
  writes it twice, once for the address and once for the avatar, the same but for the
  fields of the result it fills and a word of the log; here it is one function, from the
  loop counter \<open>i\<close> and the current \<open>lastError\<close>. It returns the response of the attempt
  that succeeded (the \<open>break\<close>), if any, and the last error caught.
\<close>

function retryLoop ::
  "env \<Rightarrow> jsstring \<Rightarrow> nat \<Rightarrow> js_error option \<Rightarrow> world \<Rightarrow> (response option \<times> js_error option) \<times> world"
where
  "retryLoop e u i lastError w =
     (if i < MAX_RETRIES then
        (case tryBody e u w of
           (Inr res, w1) \<Rightarrow> ((Some res, lastError), w1)
         | (Inl t, w1) \<Rightarrow>
             retryLoop e u (i + 1) (Some (toError t))
               (if i < MAX_RETRIES - 1 then backoff e i w1 else w1))
      else ((None, lastError), w))"
  by pat_completeness auto
termination
  by (relation "measure (\<lambda>(e, u, i, lastError, w). MAX_RETRIES - i)") auto

declare retryLoop.simps [simp del]

text \<open>\<open>lastError?.name === 'AbortError' ? 'timeout' : 'error'\<close>\<close>

definition statusOfError :: "js_error option \<Rightarrow> LinkStatus" where
  "statusOfError lastError =
     (if map_option err_name lastError = Some (asc ''AbortError'') then LS_timeout else LS_error)"

definition checkLink :: "env \<Rightarrow> FriendLink \<Rightarrow> world \<Rightarrow> LinkCheckResult \<times> world" where
  "checkLink e friend w =
     (let result = \<lparr>r_name = name friend, r_url = url friend, r_avatar = avatar friend,
                     status = None, httpStatus = None, responseTime = None, reason = None,
                     avatarStatus = None, avatarHttpStatus = None, avatarResponseTime = None\<rparr>
      in if truthy (disconnected friend)
         then (result\<lparr>status := Some LS_ok, responseTime := Some 0,
                       avatarStatus := Some LS_ok, avatarResponseTime := Some 0\<rparr>, w)
         else
           (case retryLoop e (url friend) 0 None w of
              ((got1, lastError1), w1) \<Rightarrow>
                let result1 =
                      (case got1 of
                         Some res \<Rightarrow> result\<lparr>status := Some LS_ok, httpStatus := Some (res_status res),
                                              responseTime := Some (time res)\<rparr>
                       | None \<Rightarrow> result);
                    result2 =
                      (if status result1 = None
                       then result1\<lparr>status := Some (statusOfError lastError1),
                                     reason := map_option err_message lastError1,
                                     responseTime := Some 0\<rparr>
                       else result1)
                in (case retryLoop e (avatar friend) 0 None w1 of
                      ((got2, lastError2), w2) \<Rightarrow>
                        let result3 =
                              (case got2 of
                                 Some res \<Rightarrow> result2\<lparr>avatarStatus := Some LS_ok,
                                                       avatarHttpStatus := Some (res_status res),
                                                       avatarResponseTime := Some (time res)\<rparr>
                               | None \<Rightarrow> result2);
                            result4 =
                              (if avatarStatus result3 = None
                               then result3\<lparr>avatarStatus := Some (statusOfError lastError2),
                                             avatarResponseTime := Some 0\<rparr>
                               else result3)
                        in (result4, w2))))"

section \<open>parseFriendsTs\<close>

text \<open>
  The two regular expressions are matched the way the engine matches them, piece by
  piece from a start position; a search tries the start positions from left to right.
  No piece needs backtracking: \<open>\s*\<close> is always followed by a literal that does not start
  with white space, \<open>[^"]+\<close> and \<open>[^"]*\<close> by a quote, and an optional group that matched
  starts with a comma and a key that nothing after the group can match.

  \<open>isSpace\<close> is the class \<open>\s\<close> on code units.
\<close>

definition isSpace :: "nat \<Rightarrow> bool" where
  "isSpace c \<longleftrightarrow>
     c \<in> {9, 10, 11, 12, 13, 32, 160, 5760, 8232, 8233, 8239, 8287, 12288, 65279}
     \<or> (8192 \<le> c \<and> c \<le> 8202)"

definition skipSpaces :: "jsstring \<Rightarrow> jsstring" where
  "skipSpaces s = dropWhile isSpace s"

text \<open>A literal piece \<open>p\<close> at the start of \<open>s\<close>: what is left of \<open>s\<close> after it.\<close>

definition lit :: "jsstring \<Rightarrow> jsstring \<Rightarrow> jsstring option" where
  "lit p s = (if prefix p s then Some (drop (length p) s) else None)"

text \<open>\<open>"([^"]*)"\<close>: the capture and what is left after the closing quote.\<close>

definition quoted :: "jsstring \<Rightarrow> (jsstring \<times> jsstring) option" where
  "quoted s =
     (case s of
        [] \<Rightarrow> None
      | c # cs \<Rightarrow>
          if c = 34 then
            (case dropWhile (\<lambda>x. x \<noteq> 34) cs of
               [] \<Rightarrow> None
             | q # rest \<Rightarrow> Some (takeWhile (\<lambda>x. x \<noteq> 34) cs, rest))
          else None)"

text \<open>\<open>"([^"]+)"\<close>: the same with a capture that is not empty.\<close>

definition quoted1 :: "jsstring \<Rightarrow> (jsstring \<times> jsstring) option" where
  "quoted1 s =
     (case quoted s of
        None \<Rightarrow> None
      | Some (v, rest) \<Rightarrow> if v = [] then None else Some (v, rest))"

text \<open>\<open>,\s*key\s*\<close> for a key such as \<open>description:\<close>.\<close>

definition commaKey :: "jsstring \<Rightarrow> jsstring \<Rightarrow> jsstring option" where
  "commaKey key s =
     do {
       s1 \<leftarrow> lit (asc '','') s;
       s2 \<leftarrow> lit key (skipSpaces s1);
       Some (skipSpaces s2)
     }"

text \<open>The optional group \<open>(?:,\s*addDate:\s*"([^"]*)")?\<close>: its capture, if the group matched.\<close>

definition optAddDate :: "jsstring \<Rightarrow> jsstring option \<times> jsstring" where
  "optAddDate s =
     (case commaKey (asc ''addDate:'') s \<bind> quoted of
        Some (v, rest) \<Rightarrow> (Some v, rest)
      | None \<Rightarrow> (None, s))"

text \<open>\<open>(true|false)\<close>\<close>

definition trueOrFalse :: "jsstring \<Rightarrow> (jsstring \<times> jsstring) option" where
  "trueOrFalse s =
     (case lit (asc ''true'') s of
        Some rest \<Rightarrow> Some (asc ''true'', rest)
      | None \<Rightarrow>
          (case lit (asc ''false'') s of
             Some rest \<Rightarrow> Some (asc ''false'', rest)
           | None \<Rightarrow> None))"

text \<open>The optional groups \<open>(?:,\s*recommended:\s*(true|false))?\<close> and the one for \<open>disconnected:\<close>.\<close>

definition optFlag :: "jsstring \<Rightarrow> jsstring \<Rightarrow> jsstring option \<times> jsstring" where
  "optFlag key s =
     (case commaKey key s \<bind> trueOrFalse of
        Some (v, rest) \<Rightarrow> (Some v, rest)
      | None \<Rightarrow> (None, s))"

text \<open>\<open>\{\s*name:\s*"([^"]+)"\<close>, the start of \<open>objectRegex\<close>.\<close>

definition nameField :: "jsstring \<Rightarrow> (jsstring \<times> jsstring) option" where
  "nameField s =
     do {
       s1 \<leftarrow> lit (asc ''{'') s;
       s2 \<leftarrow> lit (asc ''name:'') (skipSpaces s1);
       quoted1 (skipSpaces s2)
     }"

text \<open>\<open>,\s*key\s*"([^"]+)"\<close> for the keys \<open>description:\<close>, \<open>url:\<close> and \<open>avatar:\<close>.\<close>

definition keyedField :: "jsstring \<Rightarrow> jsstring \<Rightarrow> (jsstring \<times> jsstring) option" where
  "keyedField key s = commaKey key s \<bind> quoted1"

text \<open>
  \<open>objectRegex\<close> matched at the start of \<open>s\<close>, and the entry \<open>friends.push\<close> builds from the
  captures: \<open>addDate: objMatch[5] || undefined\<close>,
  \<open>recommended: objMatch[6] === 'true' ? true : undefined\<close>, and the same for
  \<open>disconnected\<close>. The second component is the text after the match.
\<close>

definition objectAt :: "jsstring \<Rightarrow> (FriendLink \<times> jsstring) option" where
  "objectAt s =
     do {
       (m1, s1) \<leftarrow> nameField s;
       (m2, s2) \<leftarrow> keyedField (asc ''description:'') s1;
       (m3, s3) \<leftarrow> keyedField (asc ''url:'') s2;
       (m4, s4) \<leftarrow> keyedField (asc ''avatar:'') s3;
       let (m5, s5) = optAddDate s4;
       let (m6, s6) = optFlag (asc ''recommended:'') s5;
       let (m7, s7) = optFlag (asc ''disconnected:'') s6;
       s8 \<leftarrow> lit (asc ''}'') (skipSpaces s7);
       Some (\<lparr>name = m1, description = m2, url = m3, avatar = m4,
               addDate = (if truthyStr m5 then m5 else None),
               recommended = (if m6 = Some (asc ''true'') then Some True else None),
               disconnected = (if m7 = Some (asc ''true'') then Some True else None)\<rparr>, s8)
     }"

text \<open>Each piece returns a suffix of its input, and a match of \<open>objectRegex\<close> is not empty.\<close>

lemma lit_suffix: "lit p s = Some r \<Longrightarrow> s = p @ r"
  by (auto simp add: lit_def prefix_def split: if_splits)

lemma skipSpaces_suffix: "suffix (skipSpaces s) s"
  by (simp add: skipSpaces_def suffix_dropWhile)

lemma quoted_shape:
  assumes "quoted s = Some (v, r)"
  shows "s = 34 # v @ 34 # r \<and> 34 \<notin> set v"
proof -
  from assms obtain cs q where s: "s = 34 # cs" and d: "dropWhile (\<lambda>x. x \<noteq> 34) cs = q # r"
    and v: "v = takeWhile (\<lambda>x. x \<noteq> 34) cs"
    by (auto simp add: quoted_def split: list.splits if_splits)
  have "q = 34" using hd_dropWhile [of "\<lambda>x. x \<noteq> 34" cs] d by simp
  moreover have "cs = v @ q # r" using takeWhile_dropWhile_id [of "\<lambda>x. x \<noteq> 34" cs] d v by simp
  moreover have "34 \<notin> set v" using v by (auto dest: set_takeWhileD)
  ultimately show ?thesis using s by simp
qed

lemma quoted1_shape:
  assumes "quoted1 s = Some (v, r)"
  shows "s = 34 # v @ 34 # r \<and> 34 \<notin> set v \<and> v \<noteq> []"
  using assms quoted_shape [of s v r]
  by (auto simp add: quoted1_def split: option.splits if_splits)

lemma commaKey_suffix:
  assumes "commaKey key s = Some r"
  shows "suffix r s"
proof -
  from assms obtain a b where a: "lit (asc '','') s = Some a" and b: "lit key (skipSpaces a) = Some b"
    and r: "r = skipSpaces b"
    by (auto simp add: commaKey_def split: Option.bind_splits)
  have "suffix b (skipSpaces a)" using lit_suffix [OF b] by (simp add: suffix_def)
  moreover have "suffix a s" using lit_suffix [OF a] by (simp add: suffix_def)
  ultimately show ?thesis
    using r skipSpaces_suffix [of a] skipSpaces_suffix [of b] by (meson suffix_order.trans)
qed

lemma nameField_shape:
  assumes "nameField s = Some (v, r)"
  shows "\<exists>p. s = 123 # p @ 34 # v @ 34 # r \<and> 34 \<notin> set v \<and> v \<noteq> []"
proof -
  from assms obtain a b where a: "lit (asc ''{'') s = Some a" and b: "lit (asc ''name:'') (skipSpaces a) = Some b"
    and q: "quoted1 (skipSpaces b) = Some (v, r)"
    by (auto simp add: nameField_def split: Option.bind_splits)
  from lit_suffix [OF a] have s: "s = 123 # a" by (simp add: asc_def)
  from lit_suffix [OF b] skipSpaces_suffix [of a] have "suffix b a"
    by (metis suffix_def suffix_order.trans)
  with skipSpaces_suffix [of b] have "suffix (skipSpaces b) a"
    by (meson suffix_order.trans)
  then obtain p where "a = p @ skipSpaces b" by (auto simp add: suffix_def)
  with s quoted1_shape [OF q] show ?thesis by auto
qed

lemma keyedField_shape:
  assumes "keyedField key s = Some (v, r)"
  shows "\<exists>p. s = p @ 34 # v @ 34 # r \<and> 34 \<notin> set v \<and> v \<noteq> []"
proof -
  from assms obtain a where a: "commaKey key s = Some a" and q: "quoted1 a = Some (v, r)"
    by (auto simp add: keyedField_def split: Option.bind_splits)
  from commaKey_suffix [OF a] obtain p where "s = p @ a" by (auto simp add: suffix_def)
  with quoted1_shape [OF q] show ?thesis by auto
qed

lemma optAddDate_shape:
  assumes "optAddDate s = (m, r)"
  shows "suffix r s \<and> (\<forall>v. m = Some v \<longrightarrow> (\<exists>p. s = p @ 34 # v @ 34 # r) \<and> 34 \<notin> set v)"
proof (cases "commaKey (asc ''addDate:'') s \<bind> quoted")
  case None
  with assms show ?thesis by (simp add: optAddDate_def)
next
  case (Some x)
  obtain v' r' where x: "x = (v', r')" by (cases x)
  with Some obtain a where a: "commaKey (asc ''addDate:'') s = Some a" and q: "quoted a = Some (v', r')"
    by (auto split: Option.bind_splits)
  from commaKey_suffix [OF a] obtain p where p: "s = p @ a" by (auto simp add: suffix_def)
  from Some x assms have "m = Some v'" "r = r'" by (simp_all add: optAddDate_def)
  with p quoted_shape [OF q] show ?thesis
    by (auto simp add: suffix_def)
qed

lemma trueOrFalse_suffix:
  assumes "trueOrFalse s = Some (v, r)"
  shows "suffix r s \<and> (v = asc ''true'' \<or> v = asc ''false'')"
  using assms lit_suffix
  by (fastforce simp add: trueOrFalse_def suffix_def split: option.splits)

lemma optFlag_suffix:
  assumes "optFlag key s = (m, r)"
  shows "suffix r s"
proof (cases "commaKey key s \<bind> trueOrFalse")
  case None
  with assms show ?thesis by (simp add: optFlag_def)
next
  case (Some x)
  obtain v' r' where x: "x = (v', r')" by (cases x)
  with Some obtain a where a: "commaKey key s = Some a" and q: "trueOrFalse a = Some (v', r')"
    by (auto split: Option.bind_splits)
  from Some x assms have "r = r'" by (simp add: optFlag_def)
  with commaKey_suffix [OF a] trueOrFalse_suffix [OF q] show ?thesis
    by (meson suffix_order.trans)
qed

lemma objectAt_shorter:
  assumes "objectAt s = Some (f, rest)"
  shows "length rest < length s"
proof -
  from assms obtain m1 s1 m2 s2 m3 s3 m4 s4 where
    1: "nameField s = Some (m1, s1)"
    and 2: "keyedField (asc ''description:'') s1 = Some (m2, s2)"
    and 3: "keyedField (asc ''url:'') s2 = Some (m3, s3)"
    and 4: "keyedField (asc ''avatar:'') s3 = Some (m4, s4)"
    and 5: "lit (asc ''}'') (skipSpaces
               (snd (optFlag (asc ''disconnected:'') (snd (optFlag (asc ''recommended:'') (snd (optAddDate s4)))))))
             = Some rest"
    by (auto simp add: objectAt_def Let_def split: Option.bind_splits prod.splits)
  let ?a = "snd (optAddDate s4)"
  let ?b = "snd (optFlag (asc ''recommended:'') ?a)"
  let ?c = "snd (optFlag (asc ''disconnected:'') ?b)"
  from nameField_shape [OF 1] have "length s1 < length s" by auto
  moreover from keyedField_shape [OF 2] have "length s2 \<le> length s1" by auto
  moreover from keyedField_shape [OF 3] have "length s3 \<le> length s2" by auto
  moreover from keyedField_shape [OF 4] have "length s4 \<le> length s3" by auto
  moreover have "length ?a \<le> length s4"
    using optAddDate_shape [of s4 "fst (optAddDate s4)" ?a] by (simp add: suffix_length_le)
  moreover have "length ?b \<le> length ?a"
    using optFlag_suffix [of "asc ''recommended:''" ?a "fst (optFlag (asc ''recommended:'') ?a)" ?b]
    by (simp add: suffix_length_le)
  moreover have "length ?c \<le> length ?b"
    using optFlag_suffix [of "asc ''disconnected:''" ?b "fst (optFlag (asc ''disconnected:'') ?b)" ?c]
    by (simp add: suffix_length_le)
  moreover have "length (skipSpaces ?c) \<le> length ?c"
    using skipSpaces_suffix [of ?c] by (simp add: suffix_length_le)
  moreover from lit_suffix [OF 5] have "length rest \<le> length (skipSpaces ?c)" by simp
  ultimately show ?thesis by linarith
qed

text \<open>
  The loop \<open>while ((objMatch = objectRegex.exec(arrayContent)) !== null)\<close> with the global
  flag: the leftmost match from the current position, then on from the end of that match.
\<close>

function findObjects :: "jsstring \<Rightarrow> FriendLink list" where
  "findObjects s =
     (case objectAt s of
        Some (f, rest) \<Rightarrow> f # findObjects rest
      | None \<Rightarrow> (case s of [] \<Rightarrow> [] | c # cs \<Rightarrow> findObjects cs))"
  by pat_completeness auto
termination
  by (relation "measure length") (auto simp add: objectAt_shorter)

declare findObjects.simps [simp del]

text \<open>The lazy group \<open>([\s\S]*?)\<close> before a literal \<open>p\<close>: the text up to the first \<open>p\<close>.\<close>

fun upTo :: "jsstring \<Rightarrow> jsstring \<Rightarrow> jsstring option" where
  "upTo p [] = (if p = [] then Some [] else None)"
| "upTo p (c # cs) = (if prefix p (c # cs) then Some [] else map_option ((#) c) (upTo p cs))"

text \<open>
  \<open>/export const FRIEND_LINKS:\s*FriendLink\[\]\s*=\s*\[([\s\S]*?)\];/\<close> matched at the start
  of \<open>s\<close>: its capture.
\<close>

definition headerAt :: "jsstring \<Rightarrow> jsstring option" where
  "headerAt s =
     do {
       s1 \<leftarrow> lit (asc ''export const FRIEND_LINKS:'') s;
       s2 \<leftarrow> lit (asc ''FriendLink[]'') (skipSpaces s1);
       s3 \<leftarrow> lit (asc ''='') (skipSpaces s2);
       s4 \<leftarrow> lit (asc ''['') (skipSpaces s3);
       upTo (asc ''];'') s4
     }"

text \<open>\<open>content.match(...)\<close>: the capture of the leftmost match.\<close>

fun matchHeader :: "jsstring \<Rightarrow> jsstring option" where
  "matchHeader [] = headerAt []"
| "matchHeader (c # cs) =
     (case headerAt (c # cs) of Some x \<Rightarrow> Some x | None \<Rightarrow> matchHeader cs)"

definition parseError :: js_error where
  "parseError = Error (asc ''Error'')
     ([26080, 27861, 35299, 26512] @ asc '' friends.ts '' @ [25991, 20214])"

definition parseFriendsTs :: "jsstring \<Rightarrow> js_error + FriendLink list" where
  "parseFriendsTs content =
     (case matchHeader content of
        None \<Rightarrow> Inl parseError
      | Some arrayContent \<Rightarrow> Inr (findObjects arrayContent))"

section \<open>generateFriendsTs\<close>

text \<open>\<open>Array.prototype.join\<close>\<close>

fun join :: "jsstring \<Rightarrow> jsstring list \<Rightarrow> jsstring" where
  "join sep [] = []"
| "join sep [x] = x"
| "join sep (x # y # ys) = x @ sep @ join sep (y # ys)"

definition entryText :: "FriendLink \<Rightarrow> jsstring" where
  "entryText f =
     asc ''    {\<newline>        name: \"'' @ name f
     @ asc ''\",\<newline>        description: \"'' @ description f
     @ asc ''\",\<newline>        url: \"'' @ url f
     @ asc ''\",\<newline>        avatar: \"'' @ avatar f @ asc ''\"''
     @ (if truthyStr (addDate f)
        then asc '',\<newline>        addDate: \"'' @ (case addDate f of Some d \<Rightarrow> d | None \<Rightarrow> []) @ asc ''\"''
        else [])
     @ (if truthy (recommended f) then asc '',\<newline>        recommended: true'' else [])
     @ (if truthy (disconnected f) then asc '',\<newline>        disconnected: true'' else [])
     @ asc ''\<newline>    }''"

definition fileHead :: jsstring where
  "fileHead =
     asc ''export interface FriendLink {\<newline>''
     @ asc ''    name: string;\<newline>''
     @ asc ''    description: string;\<newline>''
     @ asc ''    url: string;\<newline>''
     @ asc ''    avatar: string;\<newline>''
     @ asc ''    addDate?: string;\<newline>''
     @ asc ''    recommended?: boolean;\<newline>''
     @ asc ''    disconnected?: boolean;\<newline>''
     @ asc ''}\<newline>''
     @ asc ''\<newline>''
     @ asc ''export const FRIEND_LINKS: FriendLink[] = [\<newline>''"

definition generateFriendsTs :: "FriendLink list \<Rightarrow> jsstring" where
  "generateFriendsTs friends =
     fileHead @ join (asc '',\<newline>'') (map entryText friends) @ asc '',\<newline>];\<newline>''"

section \<open>Entries the text format can carry\<close>

text \<open>
  The generator writes a field between quotes as it is, and the parser ends a field at the
  next quote and the array at the next \<open>];\<close>. An entry goes through the text unchanged
  when its four required fields are not empty and hold neither a quote (code unit 34) nor
  the text \<open>];\<close>, its \<open>addDate\<close> is absent or such a field, and its two flags are true or
  absent.
\<close>

definition closing :: jsstring where
  "closing = asc ''];''"

definition okField :: "jsstring \<Rightarrow> bool" where
  "okField v \<longleftrightarrow> v \<noteq> [] \<and> 34 \<notin> set v \<and> \<not> includesStr v closing"

definition wellFormed :: "FriendLink \<Rightarrow> bool" where
  "wellFormed f \<longleftrightarrow>
     okField (name f) \<and> okField (description f) \<and> okField (url f) \<and> okField (avatar f)
     \<and> (case addDate f of None \<Rightarrow> True | Some d \<Rightarrow> okField d)
     \<and> recommended f \<noteq> Some False \<and> disconnected f \<noteq> Some False"

section \<open>Texts of an entry sequence\<close>

text \<open>
  The texts that hold a sequence of entries, for the round trip through the parser. Such
  a text starts with the declarations \<open>fileHead\<close>, as the generated text and the data file
  of the repository do, and ends with \<open>];\<close> and any text \<open>post\<close>. Each entry is written
  as an object literal, the four required fields, then \<open>addDate\<close>, \<open>recommended: true\<close> and
  \<open>disconnected: true\<close> for the fields that are present, in this order; \<open>sp p\<close> is the
  white space at the place \<open>p\<close> of the entry: after the opening brace (0), after each key
  (odd places), after each comma (even places from 2 to 12) and before the closing
  brace (14). These are the places where \<open>objectRegex\<close> has \<open>\s*\<close>. \<open>gap k\<close> is the text
  before the entry \<open>k\<close>, and after the last entry for \<open>k\<close> the number of entries: a comma
  and a line break, a comment.

  \<open>layoutOk gap sp n\<close> holds for a layout of \<open>n\<close> entries when no gap holds an opening
  brace or the text \<open>];\<close> and the white space is white space.
\<close>

definition quote :: "jsstring \<Rightarrow> jsstring" where
  "quote v = 34 # v @ [34]"

type_synonym spacing = "nat \<Rightarrow> jsstring"

definition entryTextIn :: "spacing \<Rightarrow> FriendLink \<Rightarrow> jsstring" where
  "entryTextIn sp f =
     asc ''{'' @ sp 0 @ asc ''name:'' @ sp 1 @ quote (name f)
     @ asc '','' @ sp 2 @ asc ''description:'' @ sp 3 @ quote (description f)
     @ asc '','' @ sp 4 @ asc ''url:'' @ sp 5 @ quote (url f)
     @ asc '','' @ sp 6 @ asc ''avatar:'' @ sp 7 @ quote (avatar f)
     @ (case addDate f of
          Some d \<Rightarrow> asc '','' @ sp 8 @ asc ''addDate:'' @ sp 9 @ quote d
        | None \<Rightarrow> [])
     @ (if recommended f = Some True
        then asc '','' @ sp 10 @ asc ''recommended:'' @ sp 11 @ asc ''true'' else [])
     @ (if disconnected f = Some True
        then asc '','' @ sp 12 @ asc ''disconnected:'' @ sp 13 @ asc ''true'' else [])
     @ sp 14 @ asc ''}''"

fun bodyOf :: "(nat \<Rightarrow> jsstring) \<Rightarrow> (nat \<Rightarrow> spacing) \<Rightarrow> nat \<Rightarrow> FriendLink list \<Rightarrow> jsstring" where
  "bodyOf gap sp k [] = gap k"
| "bodyOf gap sp k (f # fs) = gap k @ entryTextIn (sp k) f @ bodyOf gap sp (Suc k) fs"

definition textOf ::
  "(nat \<Rightarrow> jsstring) \<Rightarrow> (nat \<Rightarrow> spacing) \<Rightarrow> jsstring \<Rightarrow> FriendLink list \<Rightarrow> jsstring" where
  "textOf gap sp post fs = fileHead @ bodyOf gap sp 0 fs @ asc ''];'' @ post"

definition layoutOk :: "(nat \<Rightarrow> jsstring) \<Rightarrow> (nat \<Rightarrow> spacing) \<Rightarrow> nat \<Rightarrow> bool" where
  "layoutOk gap sp n \<longleftrightarrow>
     list_all (\<lambda>k. 123 \<notin> set (gap k) \<and> \<not> includesStr (gap k) closing) [0..<Suc n]
     \<and> list_all (\<lambda>k. list_all (\<lambda>p. list_all isSpace (sp k p)) [0..<15]) [0..<n]"

section \<open>main\<close>

fun checkAll :: "env \<Rightarrow> FriendLink list \<Rightarrow> world \<Rightarrow> LinkCheckResult list \<times> world" where
  "checkAll e [] w = ([], w)"
| "checkAll e (friend # rest) w =
     (case checkLink e friend w of
        (result, w1) \<Rightarrow> (case checkAll e rest w1 of (results, w2) \<Rightarrow> (result # results, w2)))"

text \<open>The text the filter of \<open>main\<close> looks for in a reason, in code units.\<close>

definition marker :: jsstring where
  "marker = [24050, 26631, 35760, 20026, 22833, 32852]"

text \<open>The predicate of \<open>results.filter(...)\<close> that selects \<open>failed\<close>.\<close>

definition isFailed :: "LinkCheckResult \<Rightarrow> bool" where
  "isFailed r \<longleftrightarrow>
     (status r \<noteq> Some LS_ok
        \<and> \<not> (case reason r of None \<Rightarrow> False | Some s \<Rightarrow> includesStr s marker))
     \<or> avatarStatus r \<noteq> Some LS_ok"

text \<open>A status inside a template literal.\<close>

fun showStatus :: "LinkStatus option \<Rightarrow> jsstring" where
  "showStatus (Some LS_ok) = asc ''ok''"
| "showStatus (Some LS_timeout) = asc ''timeout''"
| "showStatus (Some LS_error) = asc ''error''"
| "showStatus None = asc ''undefined''"

definition issues :: "LinkCheckResult \<Rightarrow> jsstring list" where
  "issues f =
     (if status f \<noteq> Some LS_ok
      then [asc ''URL: '' @ showStatus (status f)
            @ (if truthyStr (reason f)
               then asc '' ('' @ (case reason f of Some s \<Rightarrow> s | None \<Rightarrow> []) @ asc '')''
               else [])]
      else [])
     @ (if avatarStatus f \<noteq> Some LS_ok
        then [asc ''Avatar: '' @ showStatus (avatarStatus f)]
        else [])"

definition disconnectedInfo :: "LinkCheckResult \<Rightarrow> DisconnectedInfo" where
  "disconnectedInfo f =
     \<lparr>d_name = r_name f, d_url = r_url f, d_reason = join (asc '', '') (issues f)\<rparr>"

text \<open>
  The \<open>friends.map\<close> of the branch with failures; \<open>result\<close> is
  \<open>results.find(r => r.name === f.name)\<close>, the first result with the name of the entry.
\<close>

definition updateFailed :: "FriendLink list \<Rightarrow> LinkCheckResult list \<Rightarrow> FriendLink list" where
  "updateFailed friends results =
     map (\<lambda>f.
       let result = find (\<lambda>r. r_name r = name f) results
       in if (case result of
                Some r \<Rightarrow> status r \<noteq> Some LS_ok \<or> avatarStatus r \<noteq> Some LS_ok
              | None \<Rightarrow> False)
          then f\<lparr>disconnected := Some True\<rparr>
          else if (case result of
                     Some r \<Rightarrow> status r = Some LS_ok \<and> avatarStatus r = Some LS_ok
                   | None \<Rightarrow> False)
                  \<and> truthy (disconnected f)
          then f\<lparr>disconnected := None\<rparr>
          else f) friends"

text \<open>\<open>updatedFriends.some((f, i) => f.disconnected !== friends[i].disconnected)\<close>\<close>

definition hasChanges :: "FriendLink list \<Rightarrow> FriendLink list \<Rightarrow> bool" where
  "hasChanges updatedFriends friends =
     list_ex (\<lambda>(f, g). disconnected f \<noteq> disconnected g) (zip updatedFriends friends)"

text \<open>The \<open>friends.map\<close> of the branch without failures.\<close>

definition updateRecovered :: "FriendLink list \<Rightarrow> FriendLink list" where
  "updateRecovered friends =
     map (\<lambda>f. if truthy (disconnected f) then f\<lparr>disconnected := None\<rparr> else f) friends"

text \<open>
  What a run leaves behind: the exit code of the process, what was written to
  \<open>OUTPUT_PATH\<close> (the list handed to \<open>JSON.stringify\<close>) and to \<open>DATA_PATH\<close>, if anything, and
  the list \<open>disconnectedList\<close> the run built (empty when the run never built one).
\<close>

record outcome =
  exitCode :: nat
  outputWritten :: "DisconnectedInfo list option"
  dataWritten :: "jsstring option"
  disconnectedList :: "DisconnectedInfo list"

text \<open>
  The part of \<open>main\<close> after the checks. A write that rejects makes \<open>main\<close> reject; the
  handler \<open>main().catch(console.error)\<close> prints the error and the process ends with exit
  code 0. \<open>process.exit(1)\<close> ends it with exit code 1.
\<close>

definition afterChecks :: "env \<Rightarrow> FriendLink list \<Rightarrow> LinkCheckResult list \<Rightarrow> outcome" where
  "afterChecks e friends results =
     (let failed = filter isFailed results
      in if length failed > 0 then
           (let dl = map disconnectedInfo failed
            in if writeFails e OUTPUT_PATH
               then \<lparr>exitCode = 0, outputWritten = None, dataWritten = None, disconnectedList = dl\<rparr>
               else
                 (let updatedFriends = updateFailed friends results
                  in if hasChanges updatedFriends friends then
                       (if writeFails e DATA_PATH
                        then \<lparr>exitCode = 0, outputWritten = Some dl, dataWritten = None,
                               disconnectedList = dl\<rparr>
                        else \<lparr>exitCode = 1, outputWritten = Some dl,
                               dataWritten = Some (generateFriendsTs updatedFriends),
                               disconnectedList = dl\<rparr>)
                     else \<lparr>exitCode = 1, outputWritten = Some dl, dataWritten = None,
                            disconnectedList = dl\<rparr>))
         else
           (let recoveredFriends = filter (\<lambda>f. truthy (disconnected f)) friends
            in if length recoveredFriends > 0 then
                 (if writeFails e DATA_PATH
                  then \<lparr>exitCode = 0, outputWritten = None, dataWritten = None, disconnectedList = []\<rparr>
                  else \<lparr>exitCode = 0, outputWritten = None,
                         dataWritten = Some (generateFriendsTs (updateRecovered friends)),
                         disconnectedList = []\<rparr>)
               else \<lparr>exitCode = 0, outputWritten = None, dataWritten = None, disconnectedList = []\<rparr>))"

definition main :: "env \<Rightarrow> world \<Rightarrow> outcome \<times> world" where
  "main e w =
     (case readData e of
        Inl t \<Rightarrow> (\<lparr>exitCode = 0, outputWritten = None, dataWritten = None, disconnectedList = []\<rparr>, w)
      | Inr content \<Rightarrow>
          (case parseFriendsTs content of
             Inl err \<Rightarrow>
               (\<lparr>exitCode = 0, outputWritten = None, dataWritten = None, disconnectedList = []\<rparr>, w)
           | Inr friends \<Rightarrow>
               (case checkAll e friends w of
                  (results, w1) \<Rightarrow> (afterChecks e friends results, w1))))"

section \<open>Reconciliation\<close>

text \<open>
  What the part of \<open>main\<close> after the checks computes from the entries and the results,
  apart from the writes: whether \<open>DATA_PATH\<close> is to be rewritten (\<open>hasChanges\<close> in the
  branch with failures, \<open>recoveredFriends.length > 0\<close> in the other), the list
  \<open>disconnectedList\<close> (empty in the branch without failures) and the entry list
  \<open>updatedFriends\<close>. In the branch without failures the source computes \<open>updatedFriends\<close>
  only when some entry is marked; when none is, the same \<open>map\<close> returns the entries as
  they are.
\<close>

record report =
  changed :: bool
  newlyFailing :: "DisconnectedInfo list"
  updatedEntries :: "FriendLink list"

definition reconcile :: "FriendLink list \<Rightarrow> LinkCheckResult list \<Rightarrow> report" where
  "reconcile friends results =
     (let failed = filter isFailed results
      in if length failed > 0 then
           (let updatedFriends = updateFailed friends results
            in \<lparr>changed = hasChanges updatedFriends friends,
                 newlyFailing = map disconnectedInfo failed,
                 updatedEntries = updatedFriends\<rparr>)
         else
           (let recoveredFriends = filter (\<lambda>f. truthy (disconnected f)) friends
            in \<lparr>changed = (length recoveredFriends > 0),
                 newlyFailing = [],
                 updatedEntries = updateRecovered friends\<rparr>))"

section \<open>Sample entries and environments\<close>

text \<open>Entries, networks and worlds on which the theorems below are instantiated.\<close>

definition world0 :: world where
  "world0 = \<lparr>fetched = [], slept = [], rolls = 0, trace = []\<rparr>"

definition okResponse :: response where
  "okResponse = \<lparr>ok = True, res_status = 200, time = 12\<rparr>"

definition refused :: thrown where
  "refused = ThrownError (Error (asc ''TypeError'') (asc ''fetch failed''))"

text \<open>Every request answered with status 200; every request refused; every request aborted
  by the timer; the first request aborted and the later ones answered.\<close>

definition env_up :: env where
  "env_up = \<lparr>net = (\<lambda>n u. Inr okResponse), random = (\<lambda>k. 1 / 2),
              readData = Inr [], writeFails = (\<lambda>p. False)\<rparr>"

definition env_refused :: env where
  "env_refused = \<lparr>net = (\<lambda>n u. Inl refused), random = (\<lambda>k. 1 / 2),
                   readData = Inr [], writeFails = (\<lambda>p. False)\<rparr>"

definition env_timeout :: env where
  "env_timeout = \<lparr>net = (\<lambda>n u. Inl abortError), random = (\<lambda>k. 0),
                   readData = Inr [], writeFails = (\<lambda>p. False)\<rparr>"

definition env_flaky :: env where
  "env_flaky = \<lparr>net = (\<lambda>n u. if n = 0 then Inl abortError else Inr okResponse),
                 random = (\<lambda>k. 1 / 2), readData = Inr [], writeFails = (\<lambda>p. False)\<rparr>"

text \<open>The world after three failed probes of \<open>u\<close> from \<open>world0\<close>, with no jitter.\<close>

definition worldAfter3 :: "jsstring \<Rightarrow> world" where
  "worldAfter3 u =
     \<lparr>fetched = [u, u, u], slept = [1000, 2000], rolls = 2,
      trace = [Probe u, Wait 1000, Probe u, Wait 2000, Probe u]\<rparr>"

text \<open>The double nearest to 0.99.\<close>

definition d099 :: rat where
  "d099 = 4458563631096791 / 2 ^ 52"

definition friendLost :: FriendLink where
  "friendLost = \<lparr>name = asc ''Luxynth'', description = asc ''blog'',
                  url = asc ''https://www.luxynth.cn'',
                  avatar = asc ''https://www.luxynth.cn/assets/images/avatar.jpg'',
                  addDate = Some (asc ''2025-09-09''), recommended = None,
                  disconnected = Some True\<rparr>"

definition friendDead :: FriendLink where
  "friendDead = \<lparr>name = asc ''Y'', description = asc ''gone'',
                  url = asc ''https://dead.example'', avatar = asc ''https://dead.example/a.png'',
                  addDate = None, recommended = None, disconnected = None\<rparr>"

text \<open>
  An entry whose address is not an address at all but the text the filter of \<open>main\<close>
  looks for: the runtime rejects the request with a \<open>TypeError\<close> whose message ends with
  the address. On the network \<open>env_unparsable\<close> the avatar of this entry is answered and
  every other request is refused. \<open>resultOdd\<close> is the result of checking the entry.
\<close>

definition friendOdd :: FriendLink where
  "friendOdd = \<lparr>name = asc ''Z'', description = asc ''odd'', url = marker,
                 avatar = asc ''https://good.example/a.png'',
                 addDate = None, recommended = None, disconnected = None\<rparr>"

definition env_unparsable :: env where
  "env_unparsable =
     \<lparr>net = (\<lambda>n u. if u = marker
                     then Inl (ThrownError (Error (asc ''TypeError'') (asc ''Failed to parse URL from '' @ u)))
                     else if u = asc ''https://good.example/a.png'' then Inr okResponse
                     else Inl refused),
      random = (\<lambda>k. 0), readData = Inr [], writeFails = (\<lambda>p. False)\<rparr>"

definition resultOdd :: LinkCheckResult where
  "resultOdd = \<lparr>r_name = asc ''Z'', r_url = marker, r_avatar = asc ''https://good.example/a.png'',
                 status = Some LS_error, httpStatus = None, responseTime = Some 0,
                 reason = Some (asc ''Failed to parse URL from '' @ marker),
                 avatarStatus = Some LS_ok, avatarHttpStatus = Some 200,
                 avatarResponseTime = Some 12\<rparr>"

text \<open>
  The results of checking \<open>friendDead\<close> on a network that refuses every request and of
  checking \<open>friendLost\<close>, and an entry with the name of \<open>friendDead\<close> that is marked.
\<close>

definition resultDead :: LinkCheckResult where
  "resultDead = \<lparr>r_name = asc ''Y'', r_url = asc ''https://dead.example'',
                  r_avatar = asc ''https://dead.example/a.png'',
                  status = Some LS_error, httpStatus = None, responseTime = Some 0,
                  reason = Some (asc ''fetch failed''),
                  avatarStatus = Some LS_error, avatarHttpStatus = None,
                  avatarResponseTime = Some 0\<rparr>"

definition resultLost :: LinkCheckResult where
  "resultLost = \<lparr>r_name = asc ''Luxynth'', r_url = asc ''https://www.luxynth.cn'',
                  r_avatar = asc ''https://www.luxynth.cn/assets/images/avatar.jpg'',
                  status = Some LS_ok, httpStatus = None, responseTime = Some 0,
                  reason = None,
                  avatarStatus = Some LS_ok, avatarHttpStatus = None,
                  avatarResponseTime = Some 0\<rparr>"

text \<open>An entry whose name holds a quote.\<close>

definition friendQuote :: FriendLink where
  "friendQuote = \<lparr>name = asc ''a\"b'', description = asc ''d'',
                  url = asc ''https://q.example'', avatar = asc ''https://q.example/a.png'',
                  addDate = None, recommended = None, disconnected = None\<rparr>"

text \<open>An entry whose description holds the text that closes the array.\<close>

definition friendBracket :: FriendLink where
  "friendBracket = \<lparr>name = asc ''B'', description = asc ''a];b'',
                     url = asc ''https://b.example'', avatar = asc ''https://b.example/a.png'',
                     addDate = None, recommended = None, disconnected = None\<rparr>"

text \<open>
  The first two entries of the data file of the repository, and the text of the data
  file up to its second entry, closed as the generator closes a text. In the data file
  the last field of the first entry is followed by a comma.
\<close>

definition friendATao :: FriendLink where
  "friendATao = \<lparr>name = asc ''ATao-Blog'',
                  description = [20570, 33258, 24049, 21916, 27426, 30340, 20107],
                  url = asc ''https://blog.atao.cyou/'',
                  avatar = asc ''https://cdn.atao.cyou/Web/Avatar.png'',
                  addDate = Some (asc ''2026-02-21''), recommended = None, disconnected = None\<rparr>"

definition friendLjx :: FriendLink where
  "friendLjx = \<lparr>name = [26792, 23613, 20852], description = asc ''A place for peace'',
                 url = asc ''https://blog.ljx.icu'', avatar = asc ''https://blog.ljx.icu/favicon.png'',
                 addDate = Some (asc ''2026-02-20''), recommended = Some True, disconnected = None\<rparr>"

definition dataText :: jsstring where
  "dataText =
     fileHead
     @ asc ''    {\<newline>        name: \"ATao-Blog\",\<newline>        description: \"''
     @ [20570, 33258, 24049, 21916, 27426, 30340, 20107]
     @ asc ''\",\<newline>        url: \"https://blog.atao.cyou/\",\<newline>        avatar: \"https://cdn.atao.cyou/Web/Avatar.png\",\<newline>        addDate: \"2026-02-21\",\<newline>    },\<newline>''
     @ entryText friendLjx
     @ asc '',\<newline>];\<newline>''"

text \<open>
  A layout of two entries with one entry on a line, a single space at every place, and a
  comment after the last entry.
\<close>

definition gapLine :: "nat \<Rightarrow> jsstring" where
  "gapLine k = (if k = 0 then asc ''  '' else if k = 1 then asc '',\<newline>  '' else asc '',\<newline>// more\<newline>'')"

definition spOne :: "nat \<Rightarrow> spacing" where
  "spOne k p = asc '' ''"

definition friendTwin :: FriendLink where
  "friendTwin = friendDead\<lparr>disconnected := Some True\<rparr>"

text \<open>
  Two runs: the data file holds \<open>friendDead\<close>, every request is refused and every write
  rejects; the same with writes that succeed.
\<close>

definition env_readonly :: env where
  "env_readonly = env_refused\<lparr>readData := Inr (generateFriendsTs [friendDead]),
                               writeFails := (\<lambda>p. True)\<rparr>"

definition env_dead :: env where
  "env_dead = env_refused\<lparr>readData := Inr (generateFriendsTs [friendDead])\<rparr>"

section \<open>Facts about the retry loop\<close>

text \<open>
  \<open>attemptResult e n u\<close> is what the \<open>try\<close> of a loop iteration ends with when its probe is
  the \<open>n\<close>-th request of the run: the response, or what the \<open>catch\<close> clause receives.
\<close>

definition attemptResult :: "env \<Rightarrow> nat \<Rightarrow> jsstring \<Rightarrow> thrown + response" where
  "attemptResult e n u =
     fst (tryBody e u \<lparr>fetched = replicate n u, slept = [], rolls = 0, trace = []\<rparr>)"

definition probed :: "jsstring \<Rightarrow> world \<Rightarrow> world" where
  "probed u w = w\<lparr>fetched := fetched w @ [u], trace := trace w @ [Probe u]\<rparr>"

lemma attemptResult_eq:
  "attemptResult e n u =
     (case net e n u of
        Inl t \<Rightarrow> Inl t
      | Inr res \<Rightarrow>
          if \<not> ok res
          then Inl (ThrownError (Error (asc ''Error'') (asc ''HTTP '' @ showNat (res_status res))))
          else Inr res)"
  by (simp add: attemptResult_def tryBody_def fetchUrl_def split: sum.splits)

lemma tryBody_eq:
  "tryBody e u w = (attemptResult e (length (fetched w)) u, probed u w)"
  by (simp add: tryBody_def fetchUrl_def attemptResult_eq probed_def split: sum.splits)

lemma retryLoop_3: "retryLoop e u (Suc (Suc (Suc 0))) le w = ((None, le), w)"
  by (subst retryLoop.simps) (simp add: MAX_RETRIES_def)

lemma retryLoop_2:
  "retryLoop e u (Suc (Suc 0)) le w =
     (case attemptResult e (length (fetched w)) u of
        Inr res \<Rightarrow> ((Some res, le), probed u w)
      | Inl t \<Rightarrow> ((None, Some (toError t)), probed u w))"
  by (subst retryLoop.simps) (simp add: MAX_RETRIES_def tryBody_eq retryLoop_3 split: sum.splits)

lemma retryLoop_1:
  "retryLoop e u (Suc 0) le w =
     (case attemptResult e (length (fetched w)) u of
        Inr res \<Rightarrow> ((Some res, le), probed u w)
      | Inl t \<Rightarrow> retryLoop e u (Suc (Suc 0)) (Some (toError t)) (backoff e 1 (probed u w)))"
  by (subst retryLoop.simps) (simp add: MAX_RETRIES_def tryBody_eq split: sum.splits)

lemma retryLoop_0:
  "retryLoop e u 0 le w =
     (case attemptResult e (length (fetched w)) u of
        Inr res \<Rightarrow> ((Some res, le), probed u w)
      | Inl t \<Rightarrow> retryLoop e u (Suc 0) (Some (toError t)) (backoff e 0 (probed u w)))"
  by (subst retryLoop.simps) (simp add: MAX_RETRIES_def tryBody_eq split: sum.splits)

text \<open>The three iterations written out.\<close>

lemma retryLoop_unfold:
  "retryLoop e u 0 le w =
     (let n = length (fetched w); w1 = probed u w in
      case attemptResult e n u of
        Inr res \<Rightarrow> ((Some res, le), w1)
      | Inl t0 \<Rightarrow>
         (let w2 = probed u (backoff e 0 w1) in
          case attemptResult e (n + 1) u of
            Inr res \<Rightarrow> ((Some res, Some (toError t0)), w2)
          | Inl t1 \<Rightarrow>
             (let w3 = probed u (backoff e 1 w2) in
              case attemptResult e (n + 2) u of
                Inr res \<Rightarrow> ((Some res, Some (toError t1)), w3)
              | Inl t2 \<Rightarrow> ((None, Some (toError t2)), w3))))"
  by (simp add: retryLoop_0 retryLoop_1 retryLoop_2 Let_def probed_def backoff_def split: sum.splits)

lemma retryLoop_None_iff:
  "fst (fst (retryLoop e u 0 le w)) = None \<longleftrightarrow>
     isl (attemptResult e (length (fetched w)) u)
     \<and> isl (attemptResult e (length (fetched w) + 1) u)
     \<and> isl (attemptResult e (length (fetched w) + 2) u)"
  by (simp add: retryLoop_unfold Let_def split: sum.splits)

lemma retryLoop_None_last:
  assumes "retryLoop e u 0 le w = ((None, le'), w')"
  shows "\<exists>t. attemptResult e (length (fetched w) + 2) u = Inl t \<and> le' = Some (toError t)"
  using assms by (auto simp add: retryLoop_unfold Let_def split: sum.splits)

text \<open>Rounding to a double, and the jitter.\<close>

lemma binade_spec:
  assumes "- 1022 \<le> e" "x < 2 powi (e + 1)"
  shows "- 1022 \<le> binade x e \<and> binade x e \<le> e \<and> x < 2 powi (binade x e + 1)
         \<and> (binade x e = - 1022 \<or> 2 powi (binade x e) \<le> x)"
  using assms
proof (induction x e rule: binade.induct)
  case (1 x e)
  show ?case
  proof (cases "e \<le> - 1022 \<or> 2 powi e \<le> x")
    case True
    then have "binade x e = e" by (subst binade.simps) simp
    with True "1.prems" show ?thesis by auto
  next
    case False
    then have b: "binade x e = binade x (e - 1)" by (subst binade.simps) simp
    from False have "- 1022 \<le> e - 1" "x < 2 powi (e - 1 + 1)" by simp_all
    from "1.IH" [OF False this] b show ?thesis by auto
  qed
qed

lemma pow2_mono: "a \<le> b \<Longrightarrow> (2::rat) powi a \<le> 2 powi b"
  by (rule power_int_increasing) simp_all

lemma binade_unique:
  assumes "2 powi b \<le> x" "x < 2 powi (b + 1)" "- 1022 \<le> b" "b \<le> 1023"
  shows "binade x 1023 = b"
proof -
  let ?c = "binade x 1023"
  have "x < 2 powi (1023 + 1)"
    using assms(2) pow2_mono [of "b + 1" "1023 + 1"] assms(4) by simp
  from binade_spec [OF _ this]
  have c: "- 1022 \<le> ?c" "?c \<le> 1023" "x < 2 powi (?c + 1)" "?c = - 1022 \<or> 2 powi ?c \<le> x"
    by simp_all
  have "\<not> ?c < b"
  proof
    assume "?c < b"
    then have "(2::rat) powi (?c + 1) \<le> 2 powi b" by (intro pow2_mono) simp
    with c(3) assms(1) show False by simp
  qed
  moreover have "\<not> b < ?c"
  proof
    assume l: "b < ?c"
    with assms(3) c(4) have "2 powi ?c \<le> x" by auto
    moreover from l have "(2::rat) powi (b + 1) \<le> 2 powi ?c" by (intro pow2_mono) simp
    ultimately show False using assms(2) by simp
  qed
  ultimately show ?thesis by simp
qed

lemma halfEven_of_int: "halfEven (of_int n) = n"
  by (simp add: halfEven_def)

lemma halfEven_nonneg: "0 \<le> q \<Longrightarrow> 0 \<le> halfEven q"
  by (auto simp add: halfEven_def Let_def)

lemma halfEven_le: "q \<le> of_int N \<Longrightarrow> halfEven q \<le> N"
proof -
  assume q: "q \<le> of_int N"
  then have f: "\<lfloor>q\<rfloor> \<le> N" by (simp add: floor_le_iff) 
  show ?thesis
  proof (cases "\<lfloor>q\<rfloor> = N")
    case True
    with q have "q = of_int N" using of_int_floor_le [of q] by simp
    then show ?thesis by (simp add: halfEven_of_int)
  next
    case False
    with f have "\<lfloor>q\<rfloor> + 1 \<le> N" by simp
    then show ?thesis by (auto simp add: halfEven_def Let_def)
  qed
qed

lemma halfEven_below:
  assumes "q < of_int N - 1 / 2"
  shows "halfEven q \<le> N - 1"
proof -
  have f: "\<lfloor>q\<rfloor> \<le> N - 1"
  proof -
    have "q < of_int N" using assms by simp
    then have "\<lfloor>q\<rfloor> < N" by (simp add: floor_less_iff)
    then show ?thesis by simp
  qed
  show ?thesis
  proof (cases "\<lfloor>q\<rfloor> = N - 1")
    case True
    then have "q - of_int \<lfloor>q\<rfloor> < 1 / 2" using assms by simp
    with True show ?thesis by (simp add: halfEven_def Let_def)
  next
    case False
    with f have "\<lfloor>q\<rfloor> + 1 \<le> N - 1" by simp
    then show ?thesis by (auto simp add: halfEven_def Let_def)
  qed
qed

lemma roundMag_nonneg: "0 \<le> x \<Longrightarrow> 0 \<le> roundMag x"
proof -
  assume x: "0 \<le> x"
  have "0 \<le> x / 2 powi (binade x 1023 - 52)"
    using x by simp
  then have "0 \<le> halfEven (x / 2 powi (binade x 1023 - 52))"
    by (rule halfEven_nonneg)
  then show ?thesis
    by (simp add: roundMag_def Let_def)
qed

lemma roundMag_le_binade_top:
  assumes "0 < x" "x < 2 powi 1024"
  shows "roundMag x \<le> 2 powi (binade x 1023 + 1)"
proof -
  let ?c = "binade x 1023"
  let ?u = "(2::rat) powi (?c - 52)"
  from binade_spec [of 1023 x] assms(2) have lt: "x < 2 powi (?c + 1)" by simp
  have u: "0 < ?u" by simp
  have "(2::rat) powi (53 + (?c - 52)) = 2 powi 53 * ?u"
    by (rule power_int_add) simp
  moreover have "53 + (?c - 52) = ?c + 1" by simp
  ultimately have split: "(2::rat) powi (?c + 1) = 2 powi 53 * ?u" by simp
  have "x / ?u < 2 powi 53"
    using lt u split by (simp add: pos_divide_less_eq)
  then have "x / ?u \<le> of_int (2 ^ 53)" by simp
  then have "halfEven (x / ?u) \<le> 2 ^ 53" by (rule halfEven_le)
  then have "(of_int (halfEven (x / ?u)) :: rat) \<le> of_int (2 ^ 53)"
    by (simp only: of_int_le_iff)
  then have "of_int (halfEven (x / ?u)) * ?u \<le> 2 powi 53 * ?u"
    using u by simp
  with assms(1) split show ?thesis
    by (simp add: roundMag_def Let_def)
qed

lemma double_below_one:
  assumes "isDouble r" "0 \<le> r" "r < 1"
  shows "r \<le> 1 - 1 / 2 ^ 53"
proof (cases "r < 1 / 2")
  case True
  then show ?thesis by simp
next
  case False
  then have h: "2 powi (- 1) \<le> r" by simp
  have b: "binade r 1023 = - 1"
    by (rule binade_unique) (use h assms(3) in simp_all)
  let ?n = "halfEven (r / 2 powi (- 53))"
  from assms(1) False have r: "r = of_int ?n * 2 powi (- 53)"
    by (simp add: isDouble_def roundDouble_def roundMag_def Let_def b split: if_splits)
  have "of_int ?n = r * 2 ^ 53"
    by (subst (2) r) (simp add: power_int_minus)
  with assms(3) have "(of_int ?n :: rat) < 2 ^ 53" by simp
  then have "(of_int ?n :: rat) < of_int (2 ^ 53)" by simp
  then have "?n < 2 ^ 53" by (simp only: of_int_less_iff)
  then have "?n \<le> 2 ^ 53 - 1" by simp
  then have "(of_int ?n :: rat) \<le> of_int (2 ^ 53 - 1)" by (simp only: of_int_le_iff)
  then have "of_int ?n * (2::rat) powi (- 53) \<le> of_int (2 ^ 53 - 1) * 2 powi (- 53)"
    by (intro mult_right_mono) simp_all
  with r have "r \<le> of_int (2 ^ 53 - 1) * 2 powi (- 53)" by simp
  also have "\<dots> = 1 - 1 / 2 ^ 53" by (simp add: power_int_minus field_simps)
  finally show ?thesis .
qed

lemma fmul_100_bounds:
  assumes "isDouble r" "0 \<le> r" "r < 1"
  shows "0 \<le> fmul r 100 \<and> fmul r 100 < 100"
proof -
  let ?x = "r * 100"
  have x0: "0 \<le> ?x" using assms(2) by simp
  have xu: "?x \<le> 100 - 100 / 2 ^ 53"
    using double_below_one [OF assms] by simp
  have f: "fmul r 100 = roundMag ?x"
    using x0 by (simp add: fmul_def roundDouble_def)
  have "roundMag ?x < 100"
  proof (cases "?x = 0")
    case True
    then show ?thesis by (simp add: roundMag_def)
  next
    case False
    with x0 have pos: "0 < ?x" by simp
    show ?thesis
    proof (cases "?x < 64")
      case True
      let ?c = "binade ?x 1023"
      have x1024: "?x < 2 powi 1024" using True by simp
      have "?c \<le> 5"
      proof (rule ccontr)
        assume "\<not> ?c \<le> 5"
        then have c6: "6 \<le> ?c" by simp
        from binade_spec [of 1023 ?x] x1024 have "?c = - 1022 \<or> 2 powi ?c \<le> ?x" by simp
        with c6 have "2 powi ?c \<le> ?x" by auto
        moreover have "(2::rat) powi 6 \<le> 2 powi ?c" using c6 by (rule pow2_mono)
        ultimately show False using True by simp
      qed
      then have "(2::rat) powi (?c + 1) \<le> 2 powi 6" by (intro pow2_mono) simp
      with roundMag_le_binade_top [OF pos x1024] show ?thesis by simp
    next
      case False
      then have ge: "2 powi 6 \<le> ?x" by simp
      have lt: "?x < 2 powi (6 + 1)" using xu by simp
      have c: "binade ?x 1023 = 6"
        by (rule binade_unique [OF ge lt]) simp_all
      let ?q = "?x / 2 powi (6 - 52)"
      have q: "?q = ?x * 2 ^ 46" by (simp add: power_int_minus field_simps)
      have "?x * 2 ^ 46 \<le> (100 - 100 / 2 ^ 53) * 2 ^ 46"
        using xu by (intro mult_right_mono) simp_all
      also have "\<dots> < of_int (100 * 2 ^ 46) - 1 / 2" by simp
      finally have "?q < of_int (100 * 2 ^ 46) - 1 / 2" using q by simp
      then have "halfEven ?q \<le> 100 * 2 ^ 46 - 1" by (rule halfEven_below)
      then have "(of_int (halfEven ?q) :: rat) \<le> of_int (100 * 2 ^ 46 - 1)"
        by (simp only: of_int_le_iff)
      then have "of_int (halfEven ?q) * (2::rat) powi (6 - 52)
                   \<le> of_int (100 * 2 ^ 46 - 1) * 2 powi (6 - 52)"
        by (intro mult_right_mono) simp_all
      also have "\<dots> < 100" by (simp add: power_int_minus field_simps)
      finally show ?thesis using pos by (simp add: roundMag_def Let_def c)
    qed
  qed
  with f roundMag_nonneg [OF x0] show ?thesis by simp
qed

lemma jitter_bounds:
  assumes "isDouble r" "0 \<le> r" "r < 1"
  shows "0 \<le> \<lfloor>fmul r 100\<rfloor> \<and> \<lfloor>fmul r 100\<rfloor> < 100"
  using fmul_100_bounds [OF assms] by (simp add: floor_less_iff)

lemma roundMag_eval:
  assumes "x \<noteq> 0" "binade x 1023 = c" "halfEven (x / 2 powi (c - 52)) = n"
  shows "roundMag x = of_int n * 2 powi (c - 52)"
  using assms by (simp add: roundMag_def Let_def)

lemma isDouble_0: "isDouble 0"
  by (simp add: isDouble_def roundDouble_def roundMag_def)

lemma fmul_0: "fmul 0 100 = 0"
  by (simp add: fmul_def roundDouble_def roundMag_def)

lemma isDouble_half: "isDouble (1 / 2)"
proof -
  have b: "binade (1 / 2) 1023 = - 1" by (rule binade_unique) simp_all
  have "(1 / 2 :: rat) / 2 powi (- 53) = of_int (2 ^ 52)" by (simp add: power_int_minus)
  then have "halfEven ((1 / 2) / 2 powi (- 53)) = 2 ^ 52" by (simp only: halfEven_of_int)
  then show ?thesis
    by (simp add: isDouble_def roundDouble_def roundMag_def Let_def b power_int_minus)
qed

lemma fmul_half: "fmul (1 / 2) 100 = 50"
proof -
  have b: "binade 50 1023 = 5" by (rule binade_unique) simp_all
  have "(50 :: rat) / 2 powi (5 - 52) = of_int (50 * 2 ^ 47)" by (simp add: power_int_minus)
  then have "halfEven (50 / 2 powi (5 - 52)) = 50 * 2 ^ 47" by (simp only: halfEven_of_int)
  then show ?thesis
    by (simp add: fmul_def roundDouble_def roundMag_def Let_def b power_int_minus)
qed

lemma fmul_d099: "fmul d099 100 = 99 \<and> \<lfloor>d099 * 100\<rfloor> = 98"
proof -
  have g: "2 powi 6 \<le> d099 * 100" "d099 * 100 < 2 powi (6 + 1)" by (simp_all add: d099_def)
  have b: "binade (d099 * 100) 1023 = 6" by (rule binade_unique [OF g]) simp_all
  have q: "d099 * 100 / 2 powi (6 - 52) = 111464090777419775 / 16"
    by (simp add: d099_def power_int_minus)
  have fl: "\<lfloor>111464090777419775 / 16 :: rat\<rfloor> = 6966505673588735"
    by (simp add: floor_eq_iff)
  have h: "halfEven (111464090777419775 / 16) = 99 * 2 ^ 46"
    by (simp add: halfEven_def Let_def fl)
  have nz: "d099 * 100 \<noteq> 0" "\<not> d099 * 100 < 0" by (simp_all add: d099_def)
  have "roundMag (d099 * 100) = of_int (99 * 2 ^ 46) * 2 powi (6 - 52)"
    by (rule roundMag_eval [OF nz(1) b]) (simp only: q h)
  also have "\<dots> = 99" by (simp add: power_int_minus)
  finally have "fmul d099 100 = 99"
    using nz(2) by (simp add: fmul_def roundDouble_def)
  moreover have "\<lfloor>d099 * 100\<rfloor> = 98"
    by (simp add: d099_def floor_eq_iff)
  ultimately show ?thesis by simp
qed


text \<open>The result of \<open>checkLink\<close> for an entry that is checked, from the two loops.\<close>

lemma checkLink_status:
  assumes "\<not> truthy (disconnected friend)"
      and "retryLoop e (url friend) 0 None w = ((got1, le1), w1)"
      and "retryLoop e (avatar friend) 0 None w1 = ((got2, le2), w2)"
  shows "snd (checkLink e friend w) = w2"
    and "status (fst (checkLink e friend w)) =
           Some (case got1 of Some res \<Rightarrow> LS_ok | None \<Rightarrow> statusOfError le1)"
    and "reason (fst (checkLink e friend w)) =
           (case got1 of Some res \<Rightarrow> None | None \<Rightarrow> map_option err_message le1)"
    and "responseTime (fst (checkLink e friend w)) =
           Some (case got1 of Some res \<Rightarrow> time res | None \<Rightarrow> 0)"
    and "avatarStatus (fst (checkLink e friend w)) =
           Some (case got2 of Some res \<Rightarrow> LS_ok | None \<Rightarrow> statusOfError le2)"
    and "avatarResponseTime (fst (checkLink e friend w)) =
           Some (case got2 of Some res \<Rightarrow> time res | None \<Rightarrow> 0)"
  using assms by (simp_all add: checkLink_def Let_def split: option.splits)

lemma checkLink_names:
  "r_name (fst (checkLink e friend w)) = name friend"
  "r_url (fst (checkLink e friend w)) = url friend"
  by (simp_all add: checkLink_def Let_def split: option.splits prod.splits)

lemma checkLink_checked:
  assumes "\<not> truthy (disconnected friend)"
  shows "fst (checkLink e friend w) =
     (let l1 = retryLoop e (url friend) 0 None w;
          got1 = fst (fst l1); le1 = snd (fst l1);
          l2 = retryLoop e (avatar friend) 0 None (snd l1);
          got2 = fst (fst l2); le2 = snd (fst l2)
      in \<lparr>r_name = name friend, r_url = url friend, r_avatar = avatar friend,
           status = Some (case got1 of Some res \<Rightarrow> LS_ok | None \<Rightarrow> statusOfError le1),
           httpStatus = map_option res_status got1,
           responseTime = Some (case got1 of Some res \<Rightarrow> time res | None \<Rightarrow> 0),
           reason = (case got1 of Some res \<Rightarrow> None | None \<Rightarrow> map_option err_message le1),
           avatarStatus = Some (case got2 of Some res \<Rightarrow> LS_ok | None \<Rightarrow> statusOfError le2),
           avatarHttpStatus = map_option res_status got2,
           avatarResponseTime = Some (case got2 of Some res \<Rightarrow> time res | None \<Rightarrow> 0)\<rparr>)"
  using assms by (simp add: checkLink_def Let_def split: option.splits prod.splits)

lemma checkLink_friendOdd:
  "fst (checkLink env_unparsable friendOdd w) = resultOdd"
proof -
  have m: "marker \<noteq> asc ''https://good.example/a.png''"
    by (simp add: marker_def asc_def)
  have a1: "attemptResult env_unparsable n marker
            = Inl (ThrownError (Error (asc ''TypeError'') (asc ''Failed to parse URL from '' @ marker)))" for n
    by (simp add: attemptResult_eq env_unparsable_def)
  have a2: "attemptResult env_unparsable n (asc ''https://good.example/a.png'') = Inr okResponse" for n
    using m by (simp add: attemptResult_eq env_unparsable_def okResponse_def)
  have nd: "\<not> truthy (disconnected friendOdd)" by (simp add: friendOdd_def)
  have l1: "fst (retryLoop env_unparsable marker 0 None w')
            = (None, Some (Error (asc ''TypeError'') (asc ''Failed to parse URL from '' @ marker)))" for w'
    by (simp add: retryLoop_unfold Let_def a1)
  have l2: "fst (retryLoop env_unparsable (asc ''https://good.example/a.png'') 0 None w')
            = (Some okResponse, None)" for w'
    by (simp add: retryLoop_unfold Let_def a2)
  have n: "asc ''TypeError'' \<noteq> asc ''AbortError''" by (simp add: asc_def)
  have u: "url friendOdd = marker" "avatar friendOdd = asc ''https://good.example/a.png''"
    "name friendOdd = asc ''Z''"
    by (simp_all add: friendOdd_def)
  show ?thesis
    by (simp add: checkLink_checked [OF nd] Let_def u l1 l2 resultOdd_def statusOfError_def n
          okResponse_def)
qed

lemma checkLink_friendDead_unparsable:
  "fst (checkLink env_unparsable friendDead w) = resultDead"
proof -
  have m: "asc ''https://dead.example'' \<noteq> marker"
    "asc ''https://dead.example/a.png'' \<noteq> marker"
    "asc ''https://dead.example'' \<noteq> asc ''https://good.example/a.png''"
    "asc ''https://dead.example/a.png'' \<noteq> asc ''https://good.example/a.png''"
    by (simp_all add: marker_def asc_def)
  have a1: "attemptResult env_unparsable n (asc ''https://dead.example'') = Inl refused" for n
    using m by (simp add: attemptResult_eq env_unparsable_def)
  have a2: "attemptResult env_unparsable n (asc ''https://dead.example/a.png'') = Inl refused" for n
    using m by (simp add: attemptResult_eq env_unparsable_def)
  have nd: "\<not> truthy (disconnected friendDead)" by (simp add: friendDead_def)
  have l1: "fst (retryLoop env_unparsable (asc ''https://dead.example'') 0 None w')
            = (None, Some (toError refused))" for w'
    by (simp add: retryLoop_unfold Let_def a1)
  have l2: "fst (retryLoop env_unparsable (asc ''https://dead.example/a.png'') 0 None w')
            = (None, Some (toError refused))" for w'
    by (simp add: retryLoop_unfold Let_def a2)
  have n: "asc ''TypeError'' \<noteq> asc ''AbortError''" by (simp add: asc_def)
  have u: "url friendDead = asc ''https://dead.example''"
    "avatar friendDead = asc ''https://dead.example/a.png''" "name friendDead = asc ''Y''"
    by (simp_all add: friendDead_def)
  show ?thesis
    by (simp add: checkLink_checked [OF nd] Let_def u l1 l2 resultDead_def statusOfError_def
          refused_def n)
qed

lemma isFailed_resultOdd: "\<not> isFailed resultOdd"
  by (simp add: isFailed_def resultOdd_def marker_def asc_def)

lemma checkLink_disconnected:
  assumes "disconnected friend = Some True"
  shows "checkLink e friend w =
     (\<lparr>r_name = name friend, r_url = url friend, r_avatar = avatar friend,
       status = Some LS_ok, httpStatus = None, responseTime = Some 0, reason = None,
       avatarStatus = Some LS_ok, avatarHttpStatus = None, avatarResponseTime = Some 0\<rparr>, w)"
  using assms by (simp add: checkLink_def)

lemma checkLink_refused_net:
  assumes "\<not> truthy (disconnected friend)" and "\<And>n u. net e n u = Inl refused"
  shows "fst (checkLink e friend w) =
     \<lparr>r_name = name friend, r_url = url friend, r_avatar = avatar friend,
       status = Some LS_error, httpStatus = None, responseTime = Some 0,
       reason = Some (asc ''fetch failed''),
       avatarStatus = Some LS_error, avatarHttpStatus = None, avatarResponseTime = Some 0\<rparr>"
proof -
  have ar: "attemptResult e n u = Inl refused" for n u
    by (simp add: attemptResult_eq assms(2))
  have l: "fst (retryLoop e u 0 None w') = (None, Some (toError refused))" for u w'
    by (simp add: retryLoop_unfold Let_def ar)
  have n: "asc ''TypeError'' \<noteq> asc ''AbortError''" by (simp add: asc_def)
  show ?thesis
    by (simp add: checkLink_checked [OF assms(1)] Let_def l statusOfError_def refused_def n)
qed

lemma checkLink_friendDead: "fst (checkLink env_refused friendDead w) = resultDead"
proof -
  have "\<not> truthy (disconnected friendDead)" by (simp add: friendDead_def)
  moreover have "net env_refused n u = Inl refused" for n u by (simp add: env_refused_def)
  ultimately have "fst (checkLink env_refused friendDead w) =
     \<lparr>r_name = name friendDead, r_url = url friendDead, r_avatar = avatar friendDead,
       status = Some LS_error, httpStatus = None, responseTime = Some 0,
       reason = Some (asc ''fetch failed''),
       avatarStatus = Some LS_error, avatarHttpStatus = None, avatarResponseTime = Some 0\<rparr>"
    by (rule checkLink_refused_net)
  then show ?thesis by (simp add: friendDead_def resultDead_def)
qed

lemma checkLink_friendLost: "checkLink e friendLost w = (resultLost, w)"
  by (simp add: checkLink_disconnected friendLost_def resultLost_def)

lemma checkLink_friendTwin:
  "checkLink e friendTwin w = (resultLost\<lparr>r_name := asc ''Y'', r_url := asc ''https://dead.example'',
      r_avatar := asc ''https://dead.example/a.png''\<rparr>, w)"
  by (simp add: checkLink_disconnected friendTwin_def friendDead_def resultLost_def)

lemma checkAll_Cons:
  "checkAll e (f # fs) w =
     (fst (checkLink e f w) # fst (checkAll e fs (snd (checkLink e f w))),
      snd (checkAll e fs (snd (checkLink e f w))))"
  by (simp split: prod.splits)

lemma checkAll_length: "length (fst (checkAll e friends w)) = length friends"
  by (induction friends arbitrary: w) (simp_all add: checkAll_Cons del: checkAll.simps(2))

lemma checkAll_nth:
  "i < length friends \<Longrightarrow>
     \<exists>w'. fst (checkAll e friends w) ! i = fst (checkLink e (friends ! i) w')"
proof (induction friends arbitrary: w i)
  case Nil
  then show ?case by simp
next
  case (Cons f fs)
  show ?case
  proof (cases i)
    case 0
    then show ?thesis
      by (auto simp add: checkAll_Cons simp del: checkAll.simps(2) intro: exI [of _ w])
  next
    case (Suc j)
    with Cons.prems have "j < length fs" by simp
    from Cons.IH [OF this, of "snd (checkLink e f w)"] Suc show ?thesis
      by (auto simp add: checkAll_Cons simp del: checkAll.simps(2))
  qed
qed

lemma find_first:
  assumes "i < length xs" "P (xs ! i)" "\<forall>j<i. \<not> P (xs ! j)"
  shows "find P xs = Some (xs ! i)"
  using assms by (auto simp add: find_Some_iff)

lemma retryLoop_fetched_le:
  "length (fetched (snd (retryLoop e u 0 le w))) \<le> length (fetched w) + 3"
  by (simp add: retryLoop_unfold Let_def probed_def backoff_def split: sum.splits)

lemma checkLink_fetched_le:
  "length (fetched (snd (checkLink e friend w)))
     \<le> length (fetched w) + (if truthy (disconnected friend) then 0 else 6)"
proof (cases "truthy (disconnected friend)")
  case True
  then show ?thesis by (simp add: checkLink_def)
next
  case False
  obtain got1 le1 w1 where l1: "retryLoop e (url friend) 0 None w = ((got1, le1), w1)"
    by (metis prod.exhaust)
  obtain got2 le2 w2 where l2: "retryLoop e (avatar friend) 0 None w1 = ((got2, le2), w2)"
    by (metis prod.exhaust)
  from retryLoop_fetched_le [of e "url friend" None w] l1
  have a: "length (fetched w1) \<le> length (fetched w) + 3" by simp
  from retryLoop_fetched_le [of e "avatar friend" None w1] l2
  have b: "length (fetched w2) \<le> length (fetched w1) + 3" by simp
  from a b False checkLink_status(1) [OF False l1 l2] show ?thesis by simp
qed

lemma checkAll_fetched_le:
  "length (fetched (snd (checkAll e friends w)))
     \<le> length (fetched w) + 6 * length (filter (\<lambda>f. \<not> truthy (disconnected f)) friends)"
proof (induction friends arbitrary: w)
  case Nil
  then show ?case by simp
next
  case (Cons f fs)
  from Cons.IH [of "snd (checkLink e f w)"] checkLink_fetched_le [of e f w]
  show ?case by (auto simp add: checkAll_Cons simp del: checkAll.simps(2))
qed

section \<open>The skip of an entry already marked\<close>

text \<open>
  C1. For an entry whose \<open>disconnected\<close> field is true, \<open>checkLink\<close> issues no probe (and
  no wait or random draw: the world is left as it was) and returns a result with both
  statuses \<open>ok\<close> and both response times 0.
\<close>

theorem checkLink_skips_disconnected:
  assumes "disconnected friend = Some True"
  shows "snd (checkLink e friend w) = w
       \<and> fetched (snd (checkLink e friend w)) = fetched w
       \<and> status (fst (checkLink e friend w)) = Some LS_ok
       \<and> avatarStatus (fst (checkLink e friend w)) = Some LS_ok
       \<and> responseTime (fst (checkLink e friend w)) = Some 0
       \<and> avatarResponseTime (fst (checkLink e friend w)) = Some 0"
  using assms by (simp add: checkLink_def)

theorem checkLink_skips_disconnected_witness:
  "disconnected friendLost = Some True
   \<and> snd (checkLink env_refused friendLost world0) = world0
   \<and> fetched (snd (checkLink env_refused friendLost world0)) = fetched world0
   \<and> status (fst (checkLink env_refused friendLost world0)) = Some LS_ok
   \<and> avatarStatus (fst (checkLink env_refused friendLost world0)) = Some LS_ok
   \<and> responseTime (fst (checkLink env_refused friendLost world0)) = Some 0
   \<and> avatarResponseTime (fst (checkLink env_refused friendLost world0)) = Some 0"
proof -
  have h: "disconnected friendLost = Some True" by (simp add: friendLost_def)
  show ?thesis
    using h checkLink_skips_disconnected [OF h, of env_refused world0] by simp
qed

section \<open>Retries and backoff\<close>

text \<open>
  C8. A resource check makes at least 1 and at most 3 probes; it stops at the first probe
  that succeeds (every probe before the last one made has failed, and the response
  returned is that of the last probe made); and after the failed attempt \<open>i\<close> that is
  not the last allowed one, it waits a delay \<open>d\<close> with \<open>1000 * 2 ^ i \<le> d < 1000 * 2 ^ i + 100\<close>
  before the next probe. \<open>Math.random()\<close> returns a double in \<open>[0, 1)\<close>, the hypothesis on
  the environment; the upper bound holds because the largest such double is
  \<open>1 - 1 / 2 ^ 53\<close>, whose product with 100 rounds to a double below 100. Here \<open>k\<close> is the
  number of probes made and \<open>ds\<close> the delays waited, in order; the trace shows each wait
  between the probe that failed and the next one.
\<close>

theorem retry_attempts_and_backoff:
  assumes rnd: "\<forall>k. isDouble (random e k) \<and> 0 \<le> random e k \<and> random e k < 1"
  shows "\<exists>k ds. 1 \<le> k \<and> k \<le> 3
        \<and> fetched (snd (retryLoop e u 0 None w)) = fetched w @ replicate k u
        \<and> slept (snd (retryLoop e u 0 None w)) = slept w @ ds \<and> length ds = k - 1
        \<and> trace (snd (retryLoop e u 0 None w))
            = trace w @ Probe u # concat (map (\<lambda>d. [Wait d, Probe u]) ds)
        \<and> (\<forall>i<k - 1. isl (attemptResult e (length (fetched w) + i) u)
                \<and> 1000 * 2 ^ i \<le> ds ! i \<and> ds ! i < 1000 * 2 ^ i + 100)
        \<and> (case fst (fst (retryLoop e u 0 None w)) of
              Some res \<Rightarrow> attemptResult e (length (fetched w) + (k - 1)) u = Inr res
            | None \<Rightarrow> k = 3 \<and> isl (attemptResult e (length (fetched w) + (k - 1)) u))"
proof -
  let ?n = "length (fetched w)"
  define j0 where "j0 = \<lfloor>fmul (random e (rolls w)) 100\<rfloor>"
  define j1 where "j1 = \<lfloor>fmul (random e (Suc (rolls w))) 100\<rfloor>"
  have b0: "0 \<le> j0 \<and> j0 < 100" unfolding j0_def using rnd jitter_bounds by blast
  have b1: "0 \<le> j1 \<and> j1 < 100" unfolding j1_def using rnd jitter_bounds by blast
  show ?thesis
  proof (cases "attemptResult e ?n u")
    case (Inr res)
    then show ?thesis
      by (intro exI[of _ "Suc 0"] exI[of _ "[]"]) (simp add: retryLoop_unfold Let_def probed_def)
  next
    case a0: (Inl t0)
    show ?thesis
    proof (cases "attemptResult e (?n + 1) u")
      case (Inr res)
      with a0 b0 show ?thesis
        by (intro exI[of _ "Suc (Suc 0)"] exI[of _ "[1000 + j0]"])
           (simp add: retryLoop_unfold Let_def probed_def backoff_def RETRY_DELAY_def j0_def [symmetric])
    next
      case a1: (Inl t1)
      show ?thesis
      proof (cases "attemptResult e (?n + 2) u")
        case (Inr res)
        with a0 a1 b0 b1 show ?thesis
          by (intro exI[of _ "Suc (Suc (Suc 0))"] exI[of _ "[1000 + j0, 2000 + j1]"])
             (simp add: retryLoop_unfold Let_def probed_def backoff_def RETRY_DELAY_def
                j0_def [symmetric] j1_def [symmetric] less_Suc_eq)
      next
        case (Inl t2)
        with a0 a1 b0 b1 show ?thesis
          by (intro exI[of _ "Suc (Suc (Suc 0))"] exI[of _ "[1000 + j0, 2000 + j1]"])
             (simp add: retryLoop_unfold Let_def probed_def backoff_def RETRY_DELAY_def
                j0_def [symmetric] j1_def [symmetric] less_Suc_eq)
      qed
    qed
  qed
qed

theorem retry_attempts_and_backoff_witness:
  "(\<forall>k. isDouble (random env_flaky k) \<and> 0 \<le> random env_flaky k \<and> random env_flaky k < 1)
   \<and> fetched (snd (retryLoop env_flaky (url friendDead) 0 None world0))
       = [url friendDead, url friendDead]
   \<and> slept (snd (retryLoop env_flaky (url friendDead) 0 None world0)) = [1050]
   \<and> trace (snd (retryLoop env_flaky (url friendDead) 0 None world0))
       = [Probe (url friendDead), Wait 1050, Probe (url friendDead)]
   \<and> fst (fst (retryLoop env_flaky (url friendDead) 0 None world0)) = Some okResponse
   \<and> (\<exists>k ds. 1 \<le> k \<and> k \<le> 3
        \<and> fetched (snd (retryLoop env_flaky (url friendDead) 0 None world0))
            = fetched world0 @ replicate k (url friendDead)
        \<and> slept (snd (retryLoop env_flaky (url friendDead) 0 None world0)) = slept world0 @ ds
        \<and> length ds = k - 1
        \<and> trace (snd (retryLoop env_flaky (url friendDead) 0 None world0))
            = trace world0 @ Probe (url friendDead)
                # concat (map (\<lambda>d. [Wait d, Probe (url friendDead)]) ds)
        \<and> (\<forall>i<k - 1. isl (attemptResult env_flaky (length (fetched world0) + i) (url friendDead))
                \<and> 1000 * 2 ^ i \<le> ds ! i \<and> ds ! i < 1000 * 2 ^ i + 100)
        \<and> (case fst (fst (retryLoop env_flaky (url friendDead) 0 None world0)) of
              Some res \<Rightarrow>
                attemptResult env_flaky (length (fetched world0) + (k - 1)) (url friendDead) = Inr res
            | None \<Rightarrow>
                k = 3 \<and> isl (attemptResult env_flaky (length (fetched world0) + (k - 1)) (url friendDead))))"
proof -
  have rn: "random env_flaky k = 1 / 2" for k
    by (simp add: env_flaky_def)
  have h: "\<forall>k. isDouble (random env_flaky k) \<and> 0 \<le> random env_flaky k \<and> random env_flaky k < 1"
    by (simp add: rn isDouble_half)
  have a0: "attemptResult env_flaky 0 u = Inl abortError" for u
    by (simp add: attemptResult_eq env_flaky_def)
  have a1: "attemptResult env_flaky (Suc 0) u = Inr okResponse" for u
    by (simp add: attemptResult_eq env_flaky_def okResponse_def)
  have c: "retryLoop env_flaky (url friendDead) 0 None world0
             = ((Some okResponse, Some (toError abortError)),
                \<lparr>fetched = [url friendDead, url friendDead], slept = [1050], rolls = 1,
                  trace = [Probe (url friendDead), Wait 1050, Probe (url friendDead)]\<rparr>)"
    by (simp add: retryLoop_unfold Let_def a0 a1 rn fmul_half world0_def probed_def
          backoff_def RETRY_DELAY_def)
  show ?thesis
    using h retry_attempts_and_backoff [OF h, of "url friendDead" world0] by (simp add: c)
qed

text \<open>
  The rounding of the product shows in the delay: for the double nearest to 0.99 the
  exact product is below 99 and the product of doubles is 99, so the wait is 1099.
\<close>

lemma backoff_d099:
  assumes "random e (rolls w) = d099"
  shows "slept (backoff e 0 w) = slept w @ [1099]"
  using assms fmul_d099 by (simp add: backoff_def RETRY_DELAY_def)

section \<open>The status of a resource whose attempts all fail\<close>

text \<open>
  C7. For an entry that is checked, with the address loop run from the world \<open>w\<close> and the
  avatar loop from the world \<open>w1\<close> the first leaves: a loop ends without a response
  exactly when its three attempts fail, and then the status of that resource is
  \<open>timeout\<close> if the error of the last attempt is named \<open>AbortError\<close> (the rejection of a
  request the timer aborted) and \<open>error\<close> otherwise, and its response time is 0.
\<close>

theorem terminal_status_of_failed_resource:
  assumes nd: "\<not> truthy (disconnected friend)"
      and l1: "retryLoop e (url friend) 0 None w = ((got1, le1), w1)"
      and l2: "retryLoop e (avatar friend) 0 None w1 = ((got2, le2), w2)"
  shows "(got1 = None \<longleftrightarrow>
            isl (attemptResult e (length (fetched w)) (url friend))
            \<and> isl (attemptResult e (length (fetched w) + 1) (url friend))
            \<and> isl (attemptResult e (length (fetched w) + 2) (url friend)))
       \<and> (got1 = None \<longrightarrow>
            (\<exists>t. attemptResult e (length (fetched w) + 2) (url friend) = Inl t
               \<and> status (fst (checkLink e friend w)) =
                   Some (if err_name (toError t) = asc ''AbortError'' then LS_timeout else LS_error)
               \<and> responseTime (fst (checkLink e friend w)) = Some 0))
       \<and> (got2 = None \<longleftrightarrow>
            isl (attemptResult e (length (fetched w1)) (avatar friend))
            \<and> isl (attemptResult e (length (fetched w1) + 1) (avatar friend))
            \<and> isl (attemptResult e (length (fetched w1) + 2) (avatar friend)))
       \<and> (got2 = None \<longrightarrow>
            (\<exists>t. attemptResult e (length (fetched w1) + 2) (avatar friend) = Inl t
               \<and> avatarStatus (fst (checkLink e friend w)) =
                   Some (if err_name (toError t) = asc ''AbortError'' then LS_timeout else LS_error)
               \<and> avatarResponseTime (fst (checkLink e friend w)) = Some 0))"
proof -
  note cs = checkLink_status [OF nd l1 l2]
  have a: "got1 = None \<longleftrightarrow>
            isl (attemptResult e (length (fetched w)) (url friend))
            \<and> isl (attemptResult e (length (fetched w) + 1) (url friend))
            \<and> isl (attemptResult e (length (fetched w) + 2) (url friend))"
    using retryLoop_None_iff [of e "url friend" None w] l1 by simp
  have b: "got2 = None \<longleftrightarrow>
            isl (attemptResult e (length (fetched w1)) (avatar friend))
            \<and> isl (attemptResult e (length (fetched w1) + 1) (avatar friend))
            \<and> isl (attemptResult e (length (fetched w1) + 2) (avatar friend))"
    using retryLoop_None_iff [of e "avatar friend" None w1] l2 by simp
  have c: "\<exists>t. attemptResult e (length (fetched w) + 2) (url friend) = Inl t
               \<and> status (fst (checkLink e friend w)) =
                   Some (if err_name (toError t) = asc ''AbortError'' then LS_timeout else LS_error)
               \<and> responseTime (fst (checkLink e friend w)) = Some 0" if "got1 = None"
  proof -
    from l1 that obtain t where "attemptResult e (length (fetched w) + 2) (url friend) = Inl t"
      and "le1 = Some (toError t)"
      using retryLoop_None_last by blast
    with that cs(2,4) show ?thesis by (simp add: statusOfError_def)
  qed
  have d: "\<exists>t. attemptResult e (length (fetched w1) + 2) (avatar friend) = Inl t
               \<and> avatarStatus (fst (checkLink e friend w)) =
                   Some (if err_name (toError t) = asc ''AbortError'' then LS_timeout else LS_error)
               \<and> avatarResponseTime (fst (checkLink e friend w)) = Some 0" if "got2 = None"
  proof -
    from l2 that obtain t where "attemptResult e (length (fetched w1) + 2) (avatar friend) = Inl t"
      and "le2 = Some (toError t)"
      using retryLoop_None_last by blast
    with that cs(5,6) show ?thesis by (simp add: statusOfError_def)
  qed
  from a b c d show ?thesis by blast
qed

theorem terminal_status_of_failed_resource_witness:
  "\<not> truthy (disconnected friendDead)
   \<and> status (fst (checkLink env_timeout friendDead world0)) = Some LS_timeout
   \<and> responseTime (fst (checkLink env_timeout friendDead world0)) = Some 0
   \<and> avatarStatus (fst (checkLink env_timeout friendDead world0)) = Some LS_timeout
   \<and> avatarResponseTime (fst (checkLink env_timeout friendDead world0)) = Some 0
   \<and> status (fst (checkLink env_refused friendDead world0)) = Some LS_error"
proof -
  have nd: "\<not> truthy (disconnected friendDead)" by (simp add: friendDead_def)
  have ar: "attemptResult env_timeout n u = Inl abortError" for n u
    by (simp add: attemptResult_eq env_timeout_def)
  have rn: "random env_timeout k = 0" for k
    by (simp add: env_timeout_def)
  have l1: "retryLoop env_timeout (url friendDead) 0 None world0
              = ((None, Some (toError abortError)), worldAfter3 (url friendDead))"
    by (simp add: retryLoop_unfold Let_def ar rn fmul_0 probed_def backoff_def RETRY_DELAY_def
          world0_def worldAfter3_def)
  have l2: "retryLoop env_timeout (avatar friendDead) 0 None (worldAfter3 (url friendDead))
              = ((None, Some (toError abortError)),
                 \<lparr>fetched = [url friendDead, url friendDead, url friendDead,
                             avatar friendDead, avatar friendDead, avatar friendDead],
                   slept = [1000, 2000, 1000, 2000], rolls = 4,
                   trace = [Probe (url friendDead), Wait 1000, Probe (url friendDead), Wait 2000,
                            Probe (url friendDead), Probe (avatar friendDead), Wait 1000,
                            Probe (avatar friendDead), Wait 2000, Probe (avatar friendDead)]\<rparr>)"
    by (simp add: retryLoop_unfold Let_def ar rn fmul_0 probed_def backoff_def RETRY_DELAY_def
          worldAfter3_def)
  have ar': "attemptResult env_refused n u = Inl refused" for n u
    by (simp add: attemptResult_eq env_refused_def)
  have r1: "fst (retryLoop env_refused (url friendDead) 0 None world0)
              = (None, Some (toError refused))"
    by (simp add: retryLoop_unfold Let_def ar')
  have e: "status (fst (checkLink env_refused friendDead world0)) = Some LS_error"
    using nd checkLink_status(2) [OF nd, of env_refused world0 None "Some (toError refused)"
        "snd (retryLoop env_refused (url friendDead) 0 None world0)"] r1
    by (simp add: prod_eq_iff statusOfError_def refused_def asc_def
          split: prod.splits)
  show ?thesis
    using nd e terminal_status_of_failed_resource [OF nd l1 l2]
    by (simp add: ar abortError_def)
qed

section \<open>Failures of a probe\<close>

text \<open>
  C2, as stated: \<open>fetchUrl\<close> never throws to its caller, whatever the failure. It does:
  when the request is refused, \<open>fetchUrl\<close> rejects with the error of \<open>fetch\<close> and returns
  nothing.
\<close>

theorem fetchUrl_rejects_counterexample:
  "fst (fetchUrl env_refused (url friendDead) world0) = Inl refused
   \<and> \<not> (\<exists>res. fst (fetchUrl env_refused (url friendDead) world0) = Inr res)"
  by (simp add: fetchUrl_def env_refused_def)

text \<open>
  C2, amended. \<open>fetchUrl\<close> passes on what \<open>fetch\<close> does, after one probe: it resolves to
  the response (also one whose status is not a success, with \<open>ok\<close> false and no error text)
  and rejects with the rejection of \<open>fetch\<close>. The \<open>try\<close> of a loop iteration of
  \<open>checkLink\<close> turns a response that is not \<open>ok\<close> into the error \<open>HTTP <status>\<close>, and the
  loop catches every error: \<open>checkLink\<close> always returns a result with both statuses set,
  and when the status of the address is not \<open>ok\<close>, the reason is the message of the error
  of the third attempt.
\<close>

theorem probe_failures_captured_by_checkLink:
  "fst (fetchUrl e u w) = net e (length (fetched w)) u
   \<and> fetched (snd (fetchUrl e u w)) = fetched w @ [u]
   \<and> (case net e (length (fetched w)) u of
         Inl t \<Rightarrow> fst (tryBody e u w) = Inl t
       | Inr res \<Rightarrow>
           fst (tryBody e u w) =
             (if ok res then Inr res
              else Inl (ThrownError (Error (asc ''Error'') (asc ''HTTP '' @ showNat (res_status res))))))
   \<and> status (fst (checkLink e friend w)) \<noteq> None
   \<and> avatarStatus (fst (checkLink e friend w)) \<noteq> None
   \<and> (status (fst (checkLink e friend w)) \<noteq> Some LS_ok \<longrightarrow>
        (\<exists>t. attemptResult e (length (fetched w) + 2) (url friend) = Inl t
           \<and> reason (fst (checkLink e friend w)) = Some (err_message (toError t))))"
proof -
  have a: "fst (fetchUrl e u w) = net e (length (fetched w)) u
           \<and> fetched (snd (fetchUrl e u w)) = fetched w @ [u]"
    by (simp add: fetchUrl_def)
  have b: "(case net e (length (fetched w)) u of
         Inl t \<Rightarrow> fst (tryBody e u w) = Inl t
       | Inr res \<Rightarrow>
           fst (tryBody e u w) =
             (if ok res then Inr res
              else Inl (ThrownError (Error (asc ''Error'') (asc ''HTTP '' @ showNat (res_status res))))))"
    by (simp add: tryBody_def fetchUrl_def split: sum.splits)
  have c: "status (fst (checkLink e friend w)) \<noteq> None
         \<and> avatarStatus (fst (checkLink e friend w)) \<noteq> None
         \<and> (status (fst (checkLink e friend w)) \<noteq> Some LS_ok \<longrightarrow>
        (\<exists>t. attemptResult e (length (fetched w) + 2) (url friend) = Inl t
           \<and> reason (fst (checkLink e friend w)) = Some (err_message (toError t))))"
  proof (cases "truthy (disconnected friend)")
    case True
    then show ?thesis by (simp add: checkLink_def)
  next
    case False
    obtain got1 le1 w1 where l1: "retryLoop e (url friend) 0 None w = ((got1, le1), w1)"
      by (metis prod.exhaust)
    obtain got2 le2 w2 where l2: "retryLoop e (avatar friend) 0 None w1 = ((got2, le2), w2)"
      by (metis prod.exhaust)
    note cs = checkLink_status [OF False l1 l2]
    show ?thesis
    proof (cases got1)
      case None
      with l1 obtain t where "attemptResult e (length (fetched w) + 2) (url friend) = Inl t"
        and "le1 = Some (toError t)"
        using retryLoop_None_last by blast
      with None cs show ?thesis by simp
    next
      case (Some res)
      with cs show ?thesis by simp
    qed
  qed
  from a b c show ?thesis by blast
qed

theorem probe_failures_captured_by_checkLink_witness:
  "status (fst (checkLink env_refused friendDead world0)) \<noteq> Some LS_ok
   \<and> status (fst (checkLink env_refused friendDead world0)) = Some LS_error
   \<and> reason (fst (checkLink env_refused friendDead world0)) = Some (asc ''fetch failed'')"
proof -
  have nd: "\<not> truthy (disconnected friendDead)" by (simp add: friendDead_def)
  have ar: "attemptResult env_refused n u = Inl refused" for n u
    by (simp add: attemptResult_eq env_refused_def)
  have r1: "fst (retryLoop env_refused (url friendDead) 0 None world0)
              = (None, Some (toError refused))"
    by (simp add: retryLoop_unfold Let_def ar)
  have e: "status (fst (checkLink env_refused friendDead world0)) = Some LS_error"
    using checkLink_status(2) [OF nd, of env_refused world0 None "Some (toError refused)"
        "snd (retryLoop env_refused (url friendDead) 0 None world0)"] r1
    by (simp add: prod_eq_iff statusOfError_def refused_def asc_def split: prod.splits)
  show ?thesis
    using e probe_failures_captured_by_checkLink [of env_refused "url friendDead" world0 friendDead]
    by (auto simp add: ar refused_def)
qed


section \<open>Facts about the reconciliation\<close>

lemma afterChecks_reconcile:
  assumes "\<not> writeFails e OUTPUT_PATH" "\<not> writeFails e DATA_PATH"
  shows "afterChecks e friends results =
     (let rep = reconcile friends results
      in \<lparr>exitCode = (if newlyFailing rep = [] then 0 else 1),
           outputWritten = (if newlyFailing rep = [] then None else Some (newlyFailing rep)),
           dataWritten = (if changed rep then Some (generateFriendsTs (updatedEntries rep)) else None),
           disconnectedList = newlyFailing rep\<rparr>)"
  using assms by (simp add: afterChecks_def reconcile_def Let_def)

lemma truthy_iff: "truthy b \<longleftrightarrow> b = Some True"
  by (cases b rule: truthy.cases) auto

lemma updateFailed_length: "length (updateFailed friends results) = length friends"
  by (simp add: updateFailed_def)

lemma updateRecovered_length: "length (updateRecovered friends) = length friends"
  by (simp add: updateRecovered_def)

lemma updateFailed_nth:
  assumes "i < length friends"
  shows "updateFailed friends results ! i =
     (let f = friends ! i; result = find (\<lambda>r. r_name r = name f) results
      in if (case result of
                Some r \<Rightarrow> status r \<noteq> Some LS_ok \<or> avatarStatus r \<noteq> Some LS_ok
              | None \<Rightarrow> False)
          then f\<lparr>disconnected := Some True\<rparr>
          else if (case result of
                     Some r \<Rightarrow> status r = Some LS_ok \<and> avatarStatus r = Some LS_ok
                   | None \<Rightarrow> False)
                  \<and> truthy (disconnected f)
          then f\<lparr>disconnected := None\<rparr>
          else f)"
  using assms by (simp add: updateFailed_def Let_def)

lemma updateRecovered_nth:
  assumes "i < length friends"
  shows "updateRecovered friends ! i =
     (if truthy (disconnected (friends ! i)) then (friends ! i)\<lparr>disconnected := None\<rparr> else friends ! i)"
  using assms by (simp add: updateRecovered_def)

lemma hasChanges_iff:
  assumes "length us = length fs"
  shows "hasChanges us fs \<longleftrightarrow> (\<exists>i<length fs. disconnected (us ! i) \<noteq> disconnected (fs ! i))"
  using assms
  by (auto simp add: hasChanges_def list_ex_iff set_zip)

lemma recovered_iff:
  "length (filter (\<lambda>f. truthy (disconnected f)) fs) > 0
     \<longleftrightarrow> (\<exists>i<length fs. truthy (disconnected (fs ! i)))"
  by (auto simp add: filter_empty_conv in_set_conv_nth) (metis nth_mem)

lemma updateFailed_idem:
  "updateFailed (updateFailed friends results) results = updateFailed friends results"
  by (simp add: updateFailed_def Let_def truthy_iff split: option.splits)

lemma hasChanges_same: "\<not> hasChanges fs fs"
  by (simp add: hasChanges_iff)

lemma updateRecovered_none:
  "filter (\<lambda>f. truthy (disconnected f)) (updateRecovered friends) = []"
  by (induction friends) (simp_all add: updateRecovered_def)

lemma sample_facts:
  "isFailed resultDead" "\<not> isFailed resultLost"
  "r_name resultDead = name friendDead" "r_name resultLost = name friendLost"
  "name friendDead \<noteq> name friendLost" "name friendLost \<noteq> name friendDead"
  "disconnected friendLost = Some True" "disconnected friendDead = None"
  "status resultLost = Some LS_ok" "avatarStatus resultLost = Some LS_ok"
  "status resultDead = Some LS_error" "avatarStatus resultDead = Some LS_error"
  by (simp_all add: isFailed_def resultDead_def resultLost_def friendDead_def friendLost_def asc_def)

lemma sample_reconcile:
  "reconcile [friendLost, friendDead] [resultLost, resultDead] =
     \<lparr>changed = True, newlyFailing = [disconnectedInfo resultDead],
      updatedEntries = [friendLost\<lparr>disconnected := None\<rparr>, friendDead\<lparr>disconnected := Some True\<rparr>]\<rparr>"
  by (simp add: reconcile_def Let_def sample_facts updateFailed_def hasChanges_def)

section \<open>Reconciling twice\<close>

text \<open>
  C10. Reconciling the entries a first reconciliation returned, with the same results,
  reports no change.
\<close>

theorem reconcile_idempotent:
  "changed (reconcile (updatedEntries (reconcile friends results)) results) = False"
proof (cases "length (filter isFailed results) > 0")
  case True
  then show ?thesis
    by (simp add: reconcile_def Let_def updateFailed_idem hasChanges_same)
next
  case False
  then show ?thesis
    by (simp add: reconcile_def Let_def updateRecovered_none)
qed

theorem reconcile_idempotent_witness:
  "changed (reconcile [friendLost, friendDead] [resultLost, resultDead])
   \<and> changed (reconcile (updatedEntries (reconcile [friendLost, friendDead] [resultLost, resultDead]))
                 [resultLost, resultDead]) = False"
  using reconcile_idempotent [of "[friendLost, friendDead]" "[resultLost, resultDead]"]
  by (simp add: sample_reconcile)

section \<open>What the reconciliation leaves untouched\<close>

text \<open>
  C9. The updated entries are as many as the entries and in the same order; each differs
  from its entry in the field \<open>disconnected\<close> at most; and \<open>changed\<close> holds exactly when
  the field \<open>disconnected\<close> of some entry differs between the two lists.
\<close>

theorem reconcile_frame:
  "length (updatedEntries (reconcile friends results)) = length friends
   \<and> (\<forall>i<length friends.
         updatedEntries (reconcile friends results) ! i =
           (friends ! i)\<lparr>disconnected := disconnected (updatedEntries (reconcile friends results) ! i)\<rparr>)
   \<and> (changed (reconcile friends results) \<longleftrightarrow>
         (\<exists>i<length friends.
            disconnected (updatedEntries (reconcile friends results) ! i) \<noteq> disconnected (friends ! i)))"
proof (cases "length (filter isFailed results) > 0")
  case True
  then have r: "reconcile friends results =
      \<lparr>changed = hasChanges (updateFailed friends results) friends,
       newlyFailing = map disconnectedInfo (filter isFailed results),
       updatedEntries = updateFailed friends results\<rparr>"
    by (simp add: reconcile_def Let_def)
  show ?thesis
    by (simp add: r updateFailed_length hasChanges_iff updateFailed_nth Let_def)
next
  case False
  then have r: "reconcile friends results =
      \<lparr>changed = (length (filter (\<lambda>f. truthy (disconnected f)) friends) > 0),
       newlyFailing = [],
       updatedEntries = updateRecovered friends\<rparr>"
    by (simp add: reconcile_def Let_def)
  have "(\<exists>i<length friends. truthy (disconnected (friends ! i))) \<longleftrightarrow>
        (\<exists>i<length friends. disconnected (updateRecovered friends ! i) \<noteq> disconnected (friends ! i))"
    by (auto simp add: updateRecovered_nth truthy_iff split: if_splits)
  then show ?thesis
    by (simp add: r updateRecovered_length updateRecovered_nth recovered_iff del: length_greater_0_conv)
qed

theorem reconcile_frame_witness:
  "length (updatedEntries (reconcile [friendLost, friendDead] [resultLost, resultDead])) = 2
   \<and> updatedEntries (reconcile [friendLost, friendDead] [resultLost, resultDead])
       = [friendLost\<lparr>disconnected := None\<rparr>, friendDead\<lparr>disconnected := Some True\<rparr>]
   \<and> changed (reconcile [friendLost, friendDead] [resultLost, resultDead])
   \<and> (\<exists>i<length [friendLost, friendDead].
         disconnected (updatedEntries (reconcile [friendLost, friendDead] [resultLost, resultDead]) ! i)
           \<noteq> disconnected ([friendLost, friendDead] ! i))"
  using reconcile_frame [of "[friendLost, friendDead]" "[resultLost, resultDead]"]
  by (simp add: sample_reconcile)

section \<open>The decision for one entry\<close>

text \<open>
  C4. A result fails when the status of its address or of its avatar is not \<open>ok\<close>; the
  entry is then marked and a record of it is in the list reported. \<open>main\<close> decides this in
  two places that do not agree. The filter that selects the results to report leaves out
  a failure of the address whose reason contains the text \<open>marker\<close>; the update of the
  entries marks every entry whose result has a status other than \<open>ok\<close>, whatever the
  reason; and the branch of the update is taken only when the filter selected a result.
  The result of an entry already marked has both statuses \<open>ok\<close> and no reason, so the
  filter's exception never applies to it; it applies to \<open>friendOdd\<close>, whose address was
  probed three times and failed. Checked together with \<open>friendDead\<close>, \<open>friendOdd\<close> is
  marked and not reported; checked alone, it is neither marked nor reported.
\<close>

theorem marker_failure_marked_not_reported:
  "fst (checkAll env_unparsable [friendOdd, friendDead] world0) = [resultOdd, resultDead]
   \<and> status resultOdd = Some LS_error \<and> avatarStatus resultOdd = Some LS_ok
   \<and> updatedEntries (reconcile [friendOdd, friendDead] [resultOdd, resultDead])
        = [friendOdd\<lparr>disconnected := Some True\<rparr>, friendDead\<lparr>disconnected := Some True\<rparr>]
   \<and> newlyFailing (reconcile [friendOdd, friendDead] [resultOdd, resultDead])
        = [\<lparr>d_name = asc ''Y'', d_url = asc ''https://dead.example'',
             d_reason = asc ''URL: error (fetch failed), Avatar: error''\<rparr>]
   \<and> fst (checkAll env_unparsable [friendOdd] world0) = [resultOdd]
   \<and> updatedEntries (reconcile [friendOdd] [resultOdd]) = [friendOdd]
   \<and> newlyFailing (reconcile [friendOdd] [resultOdd]) = []"
proof -
  have c2: "fst (checkAll env_unparsable [friendOdd, friendDead] world0) = [resultOdd, resultDead]"
    by (simp add: checkAll_Cons checkLink_friendOdd checkLink_friendDead_unparsable
          del: checkAll.simps(2))
  have c1: "fst (checkAll env_unparsable [friendOdd] world0) = [resultOdd]"
    by (simp add: checkAll_Cons checkLink_friendOdd del: checkAll.simps(2))
  have st: "status resultOdd = Some LS_error \<and> avatarStatus resultOdd = Some LS_ok"
    by (simp add: resultOdd_def)
  have n: "r_name resultOdd = name friendOdd" "r_name resultDead = name friendDead"
    "name friendDead \<noteq> name friendOdd" "disconnected friendOdd = None"
    "disconnected friendDead = None"
    by (simp_all add: resultOdd_def resultDead_def friendOdd_def friendDead_def asc_def)
  have d: "disconnectedInfo resultDead
           = \<lparr>d_name = asc ''Y'', d_url = asc ''https://dead.example'',
               d_reason = asc ''URL: error (fetch failed), Avatar: error''\<rparr>"
    by (simp add: disconnectedInfo_def issues_def resultDead_def asc_def)
  have r2: "updatedEntries (reconcile [friendOdd, friendDead] [resultOdd, resultDead])
              = [friendOdd\<lparr>disconnected := Some True\<rparr>, friendDead\<lparr>disconnected := Some True\<rparr>]
            \<and> newlyFailing (reconcile [friendOdd, friendDead] [resultOdd, resultDead])
              = [disconnectedInfo resultDead]"
    by (simp add: reconcile_def Let_def isFailed_resultOdd sample_facts updateFailed_def n st)
  have r1: "updatedEntries (reconcile [friendOdd] [resultOdd]) = [friendOdd]
            \<and> newlyFailing (reconcile [friendOdd] [resultOdd]) = []"
    by (simp add: reconcile_def Let_def isFailed_resultOdd updateRecovered_def n)
  from c2 c1 st r2 r1 show ?thesis by (simp only: d)
qed

section \<open>The flag of an entry that was skipped\<close>

text \<open>
  C3, as stated: in every entry list, an entry that enters the run marked leaves it with
  the flag removed. Not when an earlier entry has the same name and fails: the update
  matches an entry with the first result of its name, here the failed result of
  \<open>friendDead\<close>, and marks \<open>friendTwin\<close> again.
\<close>

theorem flag_survives_duplicate_name_counterexample:
  "disconnected ([friendDead, friendTwin] ! 1) = Some True
   \<and> disconnected
        (updatedEntries
           (reconcile [friendDead, friendTwin]
              (fst (checkAll env_refused [friendDead, friendTwin] world0))) ! 1) = Some True"
proof -
  have r: "fst (checkAll env_refused [friendDead, friendTwin] world0)
           = [resultDead, resultLost\<lparr>r_name := asc ''Y'', r_url := asc ''https://dead.example'',
                r_avatar := asc ''https://dead.example/a.png''\<rparr>]"
    by (simp add: checkAll_Cons checkLink_friendDead checkLink_friendTwin del: checkAll.simps(2))
  have f: "isFailed resultDead"
    by (simp add: isFailed_def resultDead_def)
  have t: "disconnected friendTwin = Some True" "name friendTwin = asc ''Y''"
    "r_name resultDead = asc ''Y''" "status resultDead = Some LS_error"
    by (simp_all add: friendTwin_def friendDead_def resultDead_def)
  show ?thesis
    unfolding r by (simp add: reconcile_def f updateFailed_def Let_def t)
qed

text \<open>
  C3, amended. An entry that enters the run marked and is the first entry with its name
  (so every marked entry, when the names are distinct) is, in the updated entries, the
  entry without the flag, and the run reports a change; \<open>checkLink\<close> leaves the world as
  it is for that entry, and the run makes at most 6 probes for each entry that is not
  marked and no other.
\<close>

theorem disconnected_flag_cleared_by_run:
  assumes i: "i < length friends"
      and d: "disconnected (friends ! i) = Some True"
      and first: "\<forall>j<i. name (friends ! j) \<noteq> name (friends ! i)"
  shows "updatedEntries (reconcile friends (fst (checkAll e friends w))) ! i
           = (friends ! i)\<lparr>disconnected := None\<rparr>
       \<and> changed (reconcile friends (fst (checkAll e friends w)))
       \<and> (\<forall>w'. snd (checkLink e (friends ! i) w') = w')
       \<and> length (fetched (snd (checkAll e friends w)))
            \<le> length (fetched w) + 6 * length (filter (\<lambda>f. \<not> truthy (disconnected f)) friends)"
proof -
  let ?rs = "fst (checkAll e friends w)"
  have len: "length ?rs = length friends" by (rule checkAll_length)
  have nm: "r_name (?rs ! j) = name (friends ! j)" if "j < length friends" for j
    using checkAll_nth [OF that, of e w] by (auto simp add: checkLink_names)
  from checkAll_nth [OF i, of e w] obtain w' where
    ri: "?rs ! i = fst (checkLink e (friends ! i) w')" by blast
  have ok: "status (?rs ! i) = Some LS_ok \<and> avatarStatus (?rs ! i) = Some LS_ok"
    by (simp add: ri checkLink_disconnected [OF d])
  have fnd: "find (\<lambda>r. r_name r = name (friends ! i)) ?rs = Some (?rs ! i)"
  proof (rule find_first)
    show "i < length ?rs" using i len by simp
    show "r_name (?rs ! i) = name (friends ! i)" using nm [OF i] .
    show "\<forall>j<i. r_name (?rs ! j) \<noteq> name (friends ! i)"
      using first nm i by auto
  qed
  have u: "updatedEntries (reconcile friends ?rs) ! i = (friends ! i)\<lparr>disconnected := None\<rparr>"
  proof (cases "length (filter isFailed ?rs) > 0")
    case True
    then have "updatedEntries (reconcile friends ?rs) = updateFailed friends ?rs"
      by (simp add: reconcile_def Let_def)
    then show ?thesis
      using ok i fnd d by (simp add: updateFailed_nth Let_def)
  next
    case False
    then have "updatedEntries (reconcile friends ?rs) = updateRecovered friends"
      by (simp add: reconcile_def Let_def)
    then show ?thesis
      using i d by (simp add: updateRecovered_nth)
  qed
  have c: "changed (reconcile friends ?rs)"
  proof (cases "length (filter isFailed ?rs) > 0")
    case True
    then have r: "reconcile friends ?rs =
      \<lparr>changed = hasChanges (updateFailed friends ?rs) friends,
       newlyFailing = map disconnectedInfo (filter isFailed ?rs),
       updatedEntries = updateFailed friends ?rs\<rparr>"
      by (simp add: reconcile_def Let_def)
    have "disconnected (updateFailed friends ?rs ! i) \<noteq> disconnected (friends ! i)"
      using u d by (simp add: r)
    with i show ?thesis
      by (auto simp add: r hasChanges_iff updateFailed_length)
  next
    case False
    moreover from i d have "friends ! i \<in> set (filter (\<lambda>f. truthy (disconnected f)) friends)"
      by simp
    then have "filter (\<lambda>f. truthy (disconnected f)) friends \<noteq> []"
      by (metis empty_iff list.set(1))
    ultimately show ?thesis
      by (simp add: reconcile_def Let_def)
  qed
  from u c checkAll_fetched_le [of e friends w] show ?thesis
    by (simp add: checkLink_disconnected [OF d])
qed

theorem disconnected_flag_cleared_by_run_witness:
  "1 < length [friendDead, friendLost]
   \<and> disconnected ([friendDead, friendLost] ! 1) = Some True
   \<and> name ([friendDead, friendLost] ! 0) \<noteq> name ([friendDead, friendLost] ! 1)
   \<and> updatedEntries (reconcile [friendDead, friendLost]
         (fst (checkAll env_refused [friendDead, friendLost] world0))) ! 1
       = friendLost\<lparr>disconnected := None\<rparr>
   \<and> changed (reconcile [friendDead, friendLost]
         (fst (checkAll env_refused [friendDead, friendLost] world0)))"
proof -
  have a: "(1::nat) < length [friendDead, friendLost]" by simp
  have b: "disconnected ([friendDead, friendLost] ! 1) = Some True" by (simp add: friendLost_def)
  have n: "name friendDead \<noteq> name friendLost"
    by (simp add: friendDead_def friendLost_def asc_def)
  then have c: "\<forall>j<1. name ([friendDead, friendLost] ! j) \<noteq> name ([friendDead, friendLost] ! 1)"
    by simp
  show ?thesis
    using n b disconnected_flag_cleared_by_run [OF a b c, of env_refused world0] by simp
qed



section \<open>Facts about the text format\<close>

text \<open>The parser on the pieces of the text the generator writes.\<close>

lemma lit_Nil: "lit [] s = Some s"
  by (simp add: lit_def)

lemma lit_Cons_Cons: "lit (a # p) (b # s) = (if a = b then lit p s else None)"
  by (simp add: lit_def)

lemma lit_Cons_Nil: "lit (a # p) [] = None"
  by (simp add: lit_def)

lemma skipSpaces_Nil: "skipSpaces [] = []"
  by (simp add: skipSpaces_def)

lemma skipSpaces_Cons:
  "skipSpaces (c # s) = (if isSpace c then skipSpaces s else c # s)"
  by (simp add: skipSpaces_def)

lemmas parse_simps = lit_Nil lit_Cons_Cons lit_Cons_Nil skipSpaces_Nil skipSpaces_Cons

lemma quoted_field:
  assumes "34 \<notin> set v"
  shows "quoted (34 # v @ 34 # R) = Some (v, R)"
proof -
  have "takeWhile (\<lambda>x. x \<noteq> 34) (v @ 34 # R) = v"
    using assms by (induction v) auto
  moreover have "dropWhile (\<lambda>x. x \<noteq> 34) (v @ 34 # R) = 34 # R"
    using assms by (induction v) auto
  ultimately show ?thesis by (simp add: quoted_def)
qed

lemma quoted1_field:
  assumes "v \<noteq> []" "34 \<notin> set v"
  shows "quoted1 (34 # v @ 34 # R) = Some (v, R)"
  using assms by (simp add: quoted1_def quoted_field)

lemma nameField_text:
  assumes "v \<noteq> []" "34 \<notin> set v"
  shows "nameField (asc ''{\<newline>        name: \"'' @ v @ 34 # R) = Some (v, R)"
  by (simp add: nameField_def asc_def parse_simps isSpace_def quoted1_field [OF assms])

lemma keyedField_description:
  assumes "v \<noteq> []" "34 \<notin> set v"
  shows "keyedField (asc ''description:'') (asc '',\<newline>        description: \"'' @ v @ 34 # R) = Some (v, R)"
  by (simp add: keyedField_def commaKey_def asc_def parse_simps isSpace_def quoted1_field [OF assms])

lemma keyedField_url:
  assumes "v \<noteq> []" "34 \<notin> set v"
  shows "keyedField (asc ''url:'') (asc '',\<newline>        url: \"'' @ v @ 34 # R) = Some (v, R)"
  by (simp add: keyedField_def commaKey_def asc_def parse_simps isSpace_def quoted1_field [OF assms])

lemma keyedField_avatar:
  assumes "v \<noteq> []" "34 \<notin> set v"
  shows "keyedField (asc ''avatar:'') (asc '',\<newline>        avatar: \"'' @ v @ 34 # R) = Some (v, R)"
  by (simp add: keyedField_def commaKey_def asc_def parse_simps isSpace_def quoted1_field [OF assms])

lemma optAddDate_text:
  assumes "34 \<notin> set v"
  shows "optAddDate (asc '',\<newline>        addDate: \"'' @ v @ 34 # R) = (Some v, R)"
  by (simp add: optAddDate_def commaKey_def asc_def parse_simps isSpace_def quoted_field [OF assms])

lemma optAddDate_none:
  "optAddDate (asc '',\<newline>        recommended: true'' @ R) = (None, asc '',\<newline>        recommended: true'' @ R)"
  "optAddDate (asc '',\<newline>        disconnected: true'' @ R) = (None, asc '',\<newline>        disconnected: true'' @ R)"
  "optAddDate (asc ''\<newline>    }'' @ R) = (None, asc ''\<newline>    }'' @ R)"
  by (simp_all add: optAddDate_def commaKey_def asc_def parse_simps isSpace_def)

lemma optFlag_recommended_text:
  "optFlag (asc ''recommended:'') (asc '',\<newline>        recommended: true'' @ R) = (Some (asc ''true''), R)"
  by (simp add: optFlag_def commaKey_def trueOrFalse_def asc_def parse_simps isSpace_def)

lemma optFlag_recommended_none:
  "optFlag (asc ''recommended:'') (asc '',\<newline>        disconnected: true'' @ R)
     = (None, asc '',\<newline>        disconnected: true'' @ R)"
  "optFlag (asc ''recommended:'') (asc ''\<newline>    }'' @ R) = (None, asc ''\<newline>    }'' @ R)"
  by (simp_all add: optFlag_def commaKey_def trueOrFalse_def asc_def parse_simps isSpace_def)

lemma optFlag_disconnected_text:
  "optFlag (asc ''disconnected:'') (asc '',\<newline>        disconnected: true'' @ R) = (Some (asc ''true''), R)"
  by (simp add: optFlag_def commaKey_def trueOrFalse_def asc_def parse_simps isSpace_def)

lemma optFlag_disconnected_none:
  "optFlag (asc ''disconnected:'') (asc ''\<newline>    }'' @ R) = (None, asc ''\<newline>    }'' @ R)"
  by (simp add: optFlag_def commaKey_def trueOrFalse_def asc_def parse_simps isSpace_def)

lemma closeBrace_text:
  "lit (asc ''}'') (skipSpaces (asc ''\<newline>    }'' @ R)) = Some R"
  by (simp add: asc_def parse_simps isSpace_def)

definition disPart :: "FriendLink \<Rightarrow> jsstring \<Rightarrow> jsstring" where
  "disPart f R = (if truthy (disconnected f) then asc '',\<newline>        disconnected: true'' @ R else R)"

definition recPart :: "FriendLink \<Rightarrow> jsstring \<Rightarrow> jsstring" where
  "recPart f R = (if truthy (recommended f) then asc '',\<newline>        recommended: true'' @ R else R)"

definition datePart :: "FriendLink \<Rightarrow> jsstring \<Rightarrow> jsstring" where
  "datePart f R =
     (if truthyStr (addDate f)
      then asc '',\<newline>        addDate: \"'' @ (case addDate f of Some d \<Rightarrow> d | None \<Rightarrow> []) @ 34 # R
      else R)"

definition objText :: "FriendLink \<Rightarrow> jsstring \<Rightarrow> jsstring" where
  "objText f R =
     asc ''{\<newline>        name: \"'' @ name f @ 34 #
     asc '',\<newline>        description: \"'' @ description f @ 34 #
     asc '',\<newline>        url: \"'' @ url f @ 34 #
     asc '',\<newline>        avatar: \"'' @ avatar f @ 34 #
     datePart f (recPart f (disPart f (asc ''\<newline>    }'' @ R)))"

lemma entryText_objText: "entryText f @ R = asc ''    '' @ objText f R"
  by (simp add: entryText_def objText_def datePart_def recPart_def disPart_def asc_def)

lemma tail_parse:
  assumes "case addDate f of None \<Rightarrow> True | Some d \<Rightarrow> d \<noteq> [] \<and> 34 \<notin> set d"
      and "recommended f \<noteq> Some False" and "disconnected f \<noteq> Some False"
  shows "optAddDate (datePart f (recPart f (disPart f (asc ''\<newline>    }'' @ R))))
           = (addDate f, recPart f (disPart f (asc ''\<newline>    }'' @ R)))"
    and "optFlag (asc ''recommended:'') (recPart f (disPart f (asc ''\<newline>    }'' @ R)))
           = (if truthy (recommended f) then Some (asc ''true'') else None,
              disPart f (asc ''\<newline>    }'' @ R))"
    and "optFlag (asc ''disconnected:'') (disPart f (asc ''\<newline>    }'' @ R))
           = (if truthy (disconnected f) then Some (asc ''true'') else None, asc ''\<newline>    }'' @ R)"
proof -
  show "optAddDate (datePart f (recPart f (disPart f (asc ''\<newline>    }'' @ R))))
           = (addDate f, recPart f (disPart f (asc ''\<newline>    }'' @ R)))"
  proof (cases "addDate f")
    case None
    then show ?thesis
      by (simp add: datePart_def recPart_def disPart_def optAddDate_none)
  next
    case (Some d)
    with assms(1) have d: "d \<noteq> []" "34 \<notin> set d" by simp_all
    then have "truthyStr (Some d)" by (cases d) simp_all
    with Some show ?thesis
      by (simp only: datePart_def if_True option.case optAddDate_text [OF d(2)])
  qed
  show "optFlag (asc ''recommended:'') (recPart f (disPart f (asc ''\<newline>    }'' @ R)))
           = (if truthy (recommended f) then Some (asc ''true'') else None,
              disPart f (asc ''\<newline>    }'' @ R))"
    by (simp add: recPart_def disPart_def optFlag_recommended_text optFlag_recommended_none)
  show "optFlag (asc ''disconnected:'') (disPart f (asc ''\<newline>    }'' @ R))
           = (if truthy (disconnected f) then Some (asc ''true'') else None, asc ''\<newline>    }'' @ R)"
    by (simp add: disPart_def optFlag_disconnected_text optFlag_disconnected_none)
qed

lemma truthy_flag:
  "b \<noteq> Some False \<Longrightarrow> (if truthy b then Some True else None) = b"
  by (cases b rule: truthy.cases) auto

lemma truthyStr_date:
  "(case m of None \<Rightarrow> True | Some d \<Rightarrow> d \<noteq> []) \<Longrightarrow> (if truthyStr m then m else None) = m"
  by (cases m rule: truthyStr.cases) auto

lemma true_flag:
  "(if (if truthy b then Some (asc ''true'') else None) = Some (asc ''true'') then Some True else None)
     = (if truthy b then Some True else None)"
  by simp

lemma objectAt_objText:
  assumes "wellFormed f"
  shows "objectAt (objText f R) = Some (f, R)"
proof -
  from assms have n: "name f \<noteq> []" "34 \<notin> set (name f)"
    and d: "description f \<noteq> []" "34 \<notin> set (description f)"
    and u: "url f \<noteq> []" "34 \<notin> set (url f)"
    and a: "avatar f \<noteq> []" "34 \<notin> set (avatar f)"
    by (simp_all add: wellFormed_def okField_def)
  from assms have ad: "case addDate f of None \<Rightarrow> True | Some d \<Rightarrow> d \<noteq> [] \<and> 34 \<notin> set d"
    and ad': "case addDate f of None \<Rightarrow> True | Some d \<Rightarrow> d \<noteq> []"
    and rc: "recommended f \<noteq> Some False" and dc: "disconnected f \<noteq> Some False"
    by (auto simp add: wellFormed_def okField_def split: option.splits)
  note t = tail_parse [OF ad rc dc]
  show ?thesis
    unfolding objectAt_def objText_def
    by (simp add: nameField_text [OF n] keyedField_description [OF d] keyedField_url [OF u]
          keyedField_avatar [OF a] t closeBrace_text true_flag truthy_flag [OF rc] truthy_flag [OF dc]
          truthyStr_date [OF ad'])
qed

lemma objectAt_not_brace: "c \<noteq> 123 \<Longrightarrow> objectAt (c # cs) = None"
  by (simp add: objectAt_def nameField_def asc_def parse_simps)

lemma objectAt_Nil: "objectAt [] = None"
  by (simp add: objectAt_def nameField_def asc_def parse_simps)

lemma findObjects_Nil: "findObjects [] = []"
  by (subst findObjects.simps) (simp add: objectAt_Nil)

lemma findObjects_skip: "c \<noteq> 123 \<Longrightarrow> findObjects (c # cs) = findObjects cs"
  by (subst findObjects.simps) (simp add: objectAt_not_brace)

lemma findObjects_entry:
  assumes "wellFormed f"
  shows "findObjects (entryText f @ R) = f # findObjects R"
proof -
  have "findObjects (entryText f @ R) = findObjects (objText f R)"
    by (simp add: entryText_objText asc_def findObjects_skip)
  also have "\<dots> = f # findObjects R"
    by (subst findObjects.simps) (simp add: objectAt_objText [OF assms])
  finally show ?thesis .
qed

lemma findObjects_sep: "findObjects (asc '',\<newline>'' @ R) = findObjects R"
  by (simp add: asc_def findObjects_skip)

lemma findObjects_body:
  assumes "list_all wellFormed fs"
  shows "findObjects (join (asc '',\<newline>'') (map entryText fs) @ asc '',\<newline>'') = fs"
  using assms
proof (induction fs rule: induct_list012)
  case 1
  then show ?case
    using findObjects_sep [of "[]"] by (simp add: findObjects_Nil)
next
  case (2 x)
  then show ?case
    using findObjects_sep [of "[]"] by (simp add: findObjects_entry findObjects_Nil)
next
  case (3 x y zs)
  then show ?case
    by (simp add: findObjects_entry findObjects_sep)
qed

lemma includes_closing_Cons:
  "includesStr (c # cs) closing \<longleftrightarrow> (c = 93 \<and> (\<exists>r. cs = 59 # r)) \<or> includesStr cs closing"
  by (cases cs) (auto simp add: closing_def asc_def)

lemma includes_closing_Nil: "\<not> includesStr [] closing"
  by (simp add: closing_def asc_def)

lemma includes_closing_append:
  "includesStr (X @ Y) closing \<longleftrightarrow>
     includesStr X closing \<or> includesStr Y closing
     \<or> (X \<noteq> [] \<and> last X = 93 \<and> Y \<noteq> [] \<and> hd Y = 59)"
proof (induction X)
  case Nil
  then show ?case by (simp add: includes_closing_Nil del: includesStr.simps)
next
  case (Cons c X)
  show ?case
  proof (cases X)
    case Nil
    then show ?thesis
      by (cases Y) (auto simp add: includes_closing_Cons includes_closing_Nil simp del: includesStr.simps)
  next
    case (Cons b X')
    with Cons.IH show ?thesis
      by (auto simp add: includes_closing_Cons simp del: includesStr.simps)
  qed
qed

definition safe :: "jsstring \<Rightarrow> bool" where
  "safe X \<longleftrightarrow> \<not> includesStr X closing \<and> (X = [] \<or> (hd X \<noteq> 59 \<and> last X \<noteq> 93))"

lemma safe_append: "safe X \<Longrightarrow> safe Y \<Longrightarrow> safe (X @ Y)"
  by (cases "X = []"; cases "Y = []")
     (auto simp add: safe_def includes_closing_append hd_append simp del: includesStr.simps)

lemma safe_Nil: "safe []"
  by (simp add: safe_def includes_closing_Nil del: includesStr.simps)

lemma safe_quoted:
  assumes "\<not> includesStr v closing"
  shows "safe (34 # v @ [34])"
proof -
  have "\<not> includesStr (v @ [34]) closing"
    using assms
    by (simp add: includes_closing_append includes_closing_Cons includes_closing_Nil
          del: includesStr.simps)
  then have "\<not> includesStr (34 # v @ [34]) closing"
    by (simp add: includes_closing_Cons del: includesStr.simps)
  then show ?thesis by (simp add: safe_def del: includesStr.simps)
qed

lemma safe_pieces:
  "safe (asc ''    {\<newline>        name: '')"
  "safe (asc '',\<newline>        description: '')"
  "safe (asc '',\<newline>        url: '')"
  "safe (asc '',\<newline>        avatar: '')"
  "safe (asc '',\<newline>        addDate: '')"
  "safe (asc '',\<newline>        recommended: true'')"
  "safe (asc '',\<newline>        disconnected: true'')"
  "safe (asc ''\<newline>    }'')"
  "safe (asc '',\<newline>'')"
  by (simp_all add: safe_def asc_def includes_closing_Cons includes_closing_Nil del: includesStr.simps)

lemma entryText_quoted:
  "entryText f =
     asc ''    {\<newline>        name: '' @ (34 # name f @ [34])
     @ asc '',\<newline>        description: '' @ (34 # description f @ [34])
     @ asc '',\<newline>        url: '' @ (34 # url f @ [34])
     @ asc '',\<newline>        avatar: '' @ (34 # avatar f @ [34])
     @ (if truthyStr (addDate f)
        then asc '',\<newline>        addDate: '' @ (34 # (case addDate f of Some d \<Rightarrow> d | None \<Rightarrow> []) @ [34])
        else [])
     @ (if truthy (recommended f) then asc '',\<newline>        recommended: true'' else [])
     @ (if truthy (disconnected f) then asc '',\<newline>        disconnected: true'' else [])
     @ asc ''\<newline>    }''"
  by (simp add: entryText_def asc_def)

lemma safe_entryText:
  assumes "wellFormed f"
  shows "safe (entryText f)"
proof -
  from assms have q: "safe (34 # name f @ [34])" "safe (34 # description f @ [34])"
    "safe (34 # url f @ [34])" "safe (34 # avatar f @ [34])"
    by (simp_all add: wellFormed_def okField_def safe_quoted)
  have d: "safe (if truthyStr (addDate f)
        then asc '',\<newline>        addDate: '' @ (34 # (case addDate f of Some d \<Rightarrow> d | None \<Rightarrow> []) @ [34])
        else [])"
    using assms
    by (cases "addDate f")
       (auto simp add: wellFormed_def okField_def safe_Nil intro!: safe_append safe_pieces safe_quoted)
  have r: "safe (if truthy (recommended f) then asc '',\<newline>        recommended: true'' else [])"
    "safe (if truthy (disconnected f) then asc '',\<newline>        disconnected: true'' else [])"
    by (simp_all add: safe_Nil safe_pieces)
  show ?thesis
    unfolding entryText_quoted
    by (intro safe_append safe_pieces q d r)
qed

lemma safe_join:
  assumes "list_all wellFormed fs"
  shows "safe (join (asc '',\<newline>'') (map entryText fs))"
  using assms
proof (induction fs rule: induct_list012)
  case 1
  then show ?case by (simp add: safe_Nil)
next
  case (2 x)
  then show ?case by (simp add: safe_entryText)
next
  case (3 x y zs)
  then show ?case
    by (auto intro!: safe_append safe_pieces safe_entryText)
qed

lemma upTo_closing:
  assumes "\<not> includesStr X closing"
  shows "upTo closing (X @ closing @ Z) = Some X"
  using assms
proof (induction X)
  case Nil
  then show ?case by (simp add: closing_def asc_def)
next
  case (Cons c X)
  from Cons.prems have n: "\<not> includesStr X closing"
    by (auto simp add: includes_closing_Cons simp del: includesStr.simps)
  have "\<not> prefix closing (c # X @ closing @ Z)"
  proof (cases X)
    case Nil
    then show ?thesis by (simp add: closing_def asc_def)
  next
    case (Cons b X')
    with Cons.prems show ?thesis
      by (auto simp add: closing_def asc_def)
  qed
  with Cons.IH [OF n] show ?case by simp
qed

lemma matchHeader_not_e: "c \<noteq> 101 \<Longrightarrow> matchHeader (c # cs) = matchHeader cs"
  by (simp add: headerAt_def asc_def parse_simps)

lemma matchHeader_e_not_x: "d \<noteq> 120 \<Longrightarrow> matchHeader (101 # d # cs) = matchHeader (d # cs)"
  by (simp add: headerAt_def asc_def parse_simps)

lemma matchHeader_export_i:
  "matchHeader (101 # 120 # 112 # 111 # 114 # 116 # 32 # 105 # cs)
     = matchHeader (120 # 112 # 111 # 114 # 116 # 32 # 105 # cs)"
  by (simp add: headerAt_def asc_def parse_simps)

lemma headerAt_const:
  "headerAt (asc ''export const FRIEND_LINKS: FriendLink[] = [\<newline>'' @ Y)
     = map_option ((#) 10) (upTo closing Y)"
  by (simp add: headerAt_def asc_def parse_simps isSpace_def closing_def)

lemma matchHeader_fileHead:
  assumes "upTo closing Y = Some X"
  shows "matchHeader (fileHead @ Y) = Some (10 # X)"
proof -
  have "matchHeader (fileHead @ Y)
        = matchHeader (asc ''export const FRIEND_LINKS: FriendLink[] = [\<newline>'' @ Y)"
    by (simp add: fileHead_def asc_def matchHeader_not_e matchHeader_e_not_x matchHeader_export_i
          del: matchHeader.simps)
  also have "\<dots> = Some (10 # X)"
  proof -
    have "headerAt (asc ''export const FRIEND_LINKS: FriendLink[] = [\<newline>'' @ Y) = Some (10 # X)"
      by (simp add: headerAt_const assms)
    then show ?thesis
      by (simp add: asc_def del: upTo.simps)
  qed
  finally show ?thesis .
qed

lemma generate_shape:
  "generateFriendsTs fs
     = fileHead @ (join (asc '',\<newline>'') (map entryText fs) @ asc '',\<newline>'') @ closing @ asc ''\<newline>''"
  by (simp add: generateFriendsTs_def closing_def asc_def)

lemma parse_generate:
  assumes "list_all wellFormed fs"
  shows "parseFriendsTs (generateFriendsTs fs) = Inr fs"
proof -
  let ?body = "join (asc '',\<newline>'') (map entryText fs) @ asc '',\<newline>''"
  have "safe ?body"
    by (intro safe_append safe_join assms safe_pieces)
  then have "\<not> includesStr ?body closing"
    by (simp add: safe_def)
  then have "upTo closing (?body @ closing @ asc ''\<newline>'') = Some ?body"
    by (rule upTo_closing)
  then have "matchHeader (generateFriendsTs fs) = Some (10 # ?body)"
    unfolding generate_shape by (rule matchHeader_fileHead)
  moreover have "findObjects (10 # ?body) = fs"
    by (simp add: findObjects_skip findObjects_body [OF assms])
  ultimately show ?thesis
    by (simp add: parseFriendsTs_def)
qed

lemma includes_closing_simps:
  "includesStr [] closing = False"
  "c \<noteq> 93 \<Longrightarrow> includesStr (c # cs) closing = includesStr cs closing"
  by (simp_all add: includes_closing_Cons includes_closing_Nil del: includesStr.simps)

lemma entryText_friendQuote:
  "entryText friendQuote =
     asc ''    '' @ 123 # asc ''\<newline>        name: \"a\"b\",\<newline>        description: \"d\",\<newline>        url: \"https://q.example\",\<newline>        avatar: \"https://q.example/a.png\"\<newline>    }''"
  by (simp add: entryText_def friendQuote_def asc_def)

text \<open>The parser on the text of an entry in any layout.\<close>

lemma skipSpaces_ws:
  assumes "list_all isSpace ws" "\<not> isSpace c"
  shows "skipSpaces (ws @ c # R) = c # R"
  using assms by (induction ws) (simp_all add: skipSpaces_def)

lemma skipSpaces_ws_only:
  assumes "list_all isSpace ws"
  shows "skipSpaces ws = []"
  using assms by (induction ws) (simp_all add: skipSpaces_def)

lemma lit_append: "lit p (p @ s) = Some s"
  by (simp add: lit_def)

lemma commaKey_ws:
  assumes "list_all isSpace a" "list_all isSpace b" "\<not> isSpace c" "\<not> isSpace x"
  shows "commaKey (c # cs) (44 # a @ (c # cs) @ b @ x # R) = Some (x # R)"
proof -
  have 1: "lit (asc '','') (44 # a @ (c # cs) @ b @ x # R) = Some (a @ c # cs @ b @ x # R)"
    by (simp add: asc_def parse_simps)
  have 2: "skipSpaces (a @ c # cs @ b @ x # R) = (c # cs) @ (b @ x # R)"
    using skipSpaces_ws [OF assms(1,3)] by simp
  have 3: "skipSpaces (b @ x # R) = x # R"
    by (rule skipSpaces_ws [OF assms(2,4)])
  show ?thesis
    unfolding commaKey_def 1 by (simp only: bind.bind_lunit 2 lit_append 3)
qed

lemma commaKey_other:
  assumes "list_all isSpace a" "\<not> isSpace d" "c \<noteq> d"
  shows "commaKey (c # cs) (44 # a @ d # R) = None"
proof -
  have 1: "lit (asc '','') (44 # a @ d # R) = Some (a @ d # R)"
    by (simp add: asc_def parse_simps)
  show ?thesis
    unfolding commaKey_def 1 using assms(3)
    by (simp add: skipSpaces_ws [OF assms(1,2)] parse_simps)
qed

lemma commaKey_no_comma:
  assumes "list_all isSpace a"
  shows "commaKey key (a @ 125 # R) = None"
proof (cases a)
  case Nil
  then show ?thesis by (simp add: commaKey_def asc_def parse_simps)
next
  case (Cons c cs)
  with assms have "isSpace c" by simp
  then have "c \<noteq> 44" by (auto simp add: isSpace_def)
  with Cons show ?thesis by (simp add: commaKey_def asc_def parse_simps)
qed


lemma nameField_ws:
  assumes "list_all isSpace a" "list_all isSpace b" "v \<noteq> []" "34 \<notin> set v"
  shows "nameField (123 # a @ asc ''name:'' @ b @ 34 # v @ 34 # R) = Some (v, R)"
proof -
  have n: "\<not> isSpace 110" "\<not> isSpace 34" by (simp_all add: isSpace_def)
  have 1: "lit (asc ''{'') (123 # a @ asc ''name:'' @ b @ 34 # v @ 34 # R)
           = Some (a @ 110 # (asc ''ame:'' @ b @ 34 # v @ 34 # R))"
    by (simp add: asc_def parse_simps)
  have 2: "skipSpaces (a @ 110 # (asc ''ame:'' @ b @ 34 # v @ 34 # R))
           = asc ''name:'' @ (b @ 34 # v @ 34 # R)"
    using skipSpaces_ws [OF assms(1) n(1)] by (simp add: asc_def)
  have 3: "skipSpaces (b @ 34 # v @ 34 # R) = 34 # v @ 34 # R"
    by (rule skipSpaces_ws [OF assms(2) n(2)])
  show ?thesis
    unfolding nameField_def 1
    by (simp only: bind.bind_lunit 2 lit_append 3 quoted1_field [OF assms(3,4)])
qed

lemma keyedField_ws:
  assumes "list_all isSpace a" "list_all isSpace b" "\<not> isSpace c" "v \<noteq> []" "34 \<notin> set v"
  shows "keyedField (c # cs) (44 # a @ (c # cs) @ b @ 34 # v @ 34 # R) = Some (v, R)"
proof -
  have n: "\<not> isSpace 34" by (simp add: isSpace_def)
  show ?thesis
    unfolding keyedField_def
    by (simp only: commaKey_ws [OF assms(1,2,3) n] bind.bind_lunit quoted1_field [OF assms(4,5)])
qed

lemma optAddDate_ws:
  assumes "list_all isSpace a" "list_all isSpace b" "34 \<notin> set v"
  shows "optAddDate (44 # a @ asc ''addDate:'' @ b @ 34 # v @ 34 # R) = (Some v, R)"
proof -
  have n: "\<not> isSpace 34" "\<not> isSpace 97" by (simp_all add: isSpace_def)
  have k: "asc ''addDate:'' = 97 # asc ''ddDate:''" by (simp add: asc_def)
  have "commaKey (asc ''addDate:'') (44 # a @ asc ''addDate:'' @ b @ 34 # v @ 34 # R)
        = Some (34 # v @ 34 # R)"
    unfolding k by (rule commaKey_ws [OF assms(1,2) n(2) n(1)])
  then show ?thesis
    by (simp add: optAddDate_def quoted_field [OF assms(3)])
qed

lemma optAddDate_other:
  assumes "list_all isSpace a" "\<not> isSpace d" "d \<noteq> 97"
  shows "optAddDate (44 # a @ d # R) = (None, 44 # a @ d # R)"
proof -
  have k: "asc ''addDate:'' = 97 # asc ''ddDate:''" by (simp add: asc_def)
  have "commaKey (asc ''addDate:'') (44 # a @ d # R) = None"
    unfolding k using assms by (intro commaKey_other) auto
  then show ?thesis by (simp add: optAddDate_def)
qed

lemma optAddDate_close:
  assumes "list_all isSpace a"
  shows "optAddDate (a @ 125 # R) = (None, a @ 125 # R)"
  by (simp add: optAddDate_def commaKey_no_comma [OF assms])

lemma optFlag_ws:
  assumes "list_all isSpace a" "list_all isSpace b" "\<not> isSpace c"
  shows "optFlag (c # cs) (44 # a @ (c # cs) @ b @ asc ''true'' @ R) = (Some (asc ''true''), R)"
proof -
  have n: "\<not> isSpace 116" by (simp add: isSpace_def)
  have t: "asc ''true'' @ R = 116 # (asc ''rue'' @ R)" by (simp add: asc_def)
  have "commaKey (c # cs) (44 # a @ (c # cs) @ b @ asc ''true'' @ R) = Some (asc ''true'' @ R)"
    unfolding t by (rule commaKey_ws [OF assms(1,2,3) n])
  then show ?thesis
    by (simp add: optFlag_def trueOrFalse_def lit_append)
qed

lemma optFlag_other:
  assumes "list_all isSpace a" "\<not> isSpace d" "c \<noteq> d"
  shows "optFlag (c # cs) (44 # a @ d # R) = (None, 44 # a @ d # R)"
  by (simp add: optFlag_def commaKey_other [OF assms])

lemma optFlag_close:
  assumes "list_all isSpace a"
  shows "optFlag key (a @ 125 # R) = (None, a @ 125 # R)"
  by (simp add: optFlag_def commaKey_no_comma [OF assms])

lemma closeBrace_ws:
  assumes "list_all isSpace a"
  shows "lit (asc ''}'') (skipSpaces (a @ 125 # R)) = Some R"
proof -
  have "\<not> isSpace 125" by (simp add: isSpace_def)
  from skipSpaces_ws [OF assms this] show ?thesis
    by (simp add: asc_def parse_simps)
qed

text \<open>The text of an entry in a layout, followed by \<open>R\<close>, from its end.\<close>

definition disPartIn :: "spacing \<Rightarrow> FriendLink \<Rightarrow> jsstring \<Rightarrow> jsstring" where
  "disPartIn sp f R =
     (if disconnected f = Some True
      then 44 # sp 12 @ asc ''disconnected:'' @ sp 13 @ asc ''true'' @ R else R)"

definition recPartIn :: "spacing \<Rightarrow> FriendLink \<Rightarrow> jsstring \<Rightarrow> jsstring" where
  "recPartIn sp f R =
     (if recommended f = Some True
      then 44 # sp 10 @ asc ''recommended:'' @ sp 11 @ asc ''true'' @ R else R)"

definition datePartIn :: "spacing \<Rightarrow> FriendLink \<Rightarrow> jsstring \<Rightarrow> jsstring" where
  "datePartIn sp f R =
     (case addDate f of
        Some d \<Rightarrow> 44 # sp 8 @ asc ''addDate:'' @ sp 9 @ 34 # d @ 34 # R
      | None \<Rightarrow> R)"

definition objTextIn :: "spacing \<Rightarrow> FriendLink \<Rightarrow> jsstring \<Rightarrow> jsstring" where
  "objTextIn sp f R =
     123 # sp 0 @ asc ''name:'' @ sp 1 @ 34 # name f @ 34 #
     44 # sp 2 @ asc ''description:'' @ sp 3 @ 34 # description f @ 34 #
     44 # sp 4 @ asc ''url:'' @ sp 5 @ 34 # url f @ 34 #
     44 # sp 6 @ asc ''avatar:'' @ sp 7 @ 34 # avatar f @ 34 #
     datePartIn sp f (recPartIn sp f (disPartIn sp f (sp 14 @ 125 # R)))"

lemma entryTextIn_objTextIn: "entryTextIn sp f @ R = objTextIn sp f R"
  by (simp add: entryTextIn_def objTextIn_def datePartIn_def recPartIn_def disPartIn_def quote_def
        asc_def split: option.splits)

definition spaces :: "spacing \<Rightarrow> bool" where
  "spaces sp \<longleftrightarrow> list_all (\<lambda>p. list_all isSpace (sp p)) [0..<15]"

lemma spaces_at: "spaces sp \<Longrightarrow> p < 15 \<Longrightarrow> list_all isSpace (sp p)"
  by (simp add: spaces_def list_all_iff)

lemma tail_parse_in:
  assumes "spaces sp"
      and "case addDate f of None \<Rightarrow> True | Some d \<Rightarrow> 34 \<notin> set d"
      and "recommended f \<noteq> Some False" and "disconnected f \<noteq> Some False"
  shows "optAddDate (datePartIn sp f (recPartIn sp f (disPartIn sp f (sp 14 @ 125 # R))))
           = (addDate f, recPartIn sp f (disPartIn sp f (sp 14 @ 125 # R)))"
    and "optFlag (asc ''recommended:'') (recPartIn sp f (disPartIn sp f (sp 14 @ 125 # R)))
           = (if recommended f = Some True then Some (asc ''true'') else None,
              disPartIn sp f (sp 14 @ 125 # R))"
    and "optFlag (asc ''disconnected:'') (disPartIn sp f (sp 14 @ 125 # R))
           = (if disconnected f = Some True then Some (asc ''true'') else None, sp 14 @ 125 # R)"
proof -
  note s = spaces_at [OF assms(1)]
  have n: "\<not> isSpace 114" "\<not> isSpace 100" "(114::nat) \<noteq> 97" "(100::nat) \<noteq> 97" "(114::nat) \<noteq> 100"
    by (simp_all add: isSpace_def)
  have kr: "asc ''recommended:'' = 114 # asc ''ecommended:''"
    and kd: "asc ''disconnected:'' = 100 # asc ''isconnected:''"
    by (simp_all add: asc_def)
  show "optAddDate (datePartIn sp f (recPartIn sp f (disPartIn sp f (sp 14 @ 125 # R))))
           = (addDate f, recPartIn sp f (disPartIn sp f (sp 14 @ 125 # R)))"
  proof (cases "addDate f")
    case (Some d)
    with assms(2) have "34 \<notin> set d" by simp
    with Some show ?thesis
      by (simp add: datePartIn_def optAddDate_ws s)
  next
    case None
    have "optAddDate (recPartIn sp f (disPartIn sp f (sp 14 @ 125 # R)))
            = (None, recPartIn sp f (disPartIn sp f (sp 14 @ 125 # R)))"
      unfolding recPartIn_def disPartIn_def kr kd
      using n by (simp add: optAddDate_other optAddDate_close s)
    with None show ?thesis by (simp add: datePartIn_def)
  qed
  show "optFlag (asc ''recommended:'') (recPartIn sp f (disPartIn sp f (sp 14 @ 125 # R)))
           = (if recommended f = Some True then Some (asc ''true'') else None,
              disPartIn sp f (sp 14 @ 125 # R))"
  proof (cases "recommended f = Some True")
    case True
    have "optFlag (114 # asc ''ecommended:'')
            (44 # sp 10 @ (114 # asc ''ecommended:'') @ sp 11 @ asc ''true'' @ disPartIn sp f (sp 14 @ 125 # R))
          = (Some (asc ''true''), disPartIn sp f (sp 14 @ 125 # R))"
      by (rule optFlag_ws) (simp_all add: s n)
    with True show ?thesis by (simp add: recPartIn_def kr)
  next
    case False
    have "optFlag (114 # asc ''ecommended:'') (disPartIn sp f (sp 14 @ 125 # R))
            = (None, disPartIn sp f (sp 14 @ 125 # R))"
      unfolding disPartIn_def kd
      using n by (simp add: optFlag_other optFlag_close s)
    with False show ?thesis by (simp add: recPartIn_def kr)
  qed
  show "optFlag (asc ''disconnected:'') (disPartIn sp f (sp 14 @ 125 # R))
           = (if disconnected f = Some True then Some (asc ''true'') else None, sp 14 @ 125 # R)"
  proof (cases "disconnected f = Some True")
    case True
    have "optFlag (100 # asc ''isconnected:'')
            (44 # sp 12 @ (100 # asc ''isconnected:'') @ sp 13 @ asc ''true'' @ (sp 14 @ 125 # R))
          = (Some (asc ''true''), sp 14 @ 125 # R)"
      by (rule optFlag_ws) (simp_all add: s n)
    with True show ?thesis by (simp add: disPartIn_def kd)
  next
    case False
    then show ?thesis by (simp add: disPartIn_def optFlag_close s)
  qed
qed

lemma flag_true:
  "b \<noteq> Some False \<Longrightarrow>
     (if (if b = Some True then Some (asc ''true'') else None) = Some (asc ''true'')
      then Some True else None) = b"
  by (cases b) auto

lemma objectAt_objTextIn:
  assumes "wellFormed f" "spaces sp"
  shows "objectAt (objTextIn sp f R) = Some (f, R)"
proof -
  note s = spaces_at [OF assms(2)]
  from assms(1) have n: "name f \<noteq> []" "34 \<notin> set (name f)"
    and d: "description f \<noteq> []" "34 \<notin> set (description f)"
    and u: "url f \<noteq> []" "34 \<notin> set (url f)"
    and a: "avatar f \<noteq> []" "34 \<notin> set (avatar f)"
    by (simp_all add: wellFormed_def okField_def)
  from assms(1) have ad: "case addDate f of None \<Rightarrow> True | Some d \<Rightarrow> 34 \<notin> set d"
    and ad': "case addDate f of None \<Rightarrow> True | Some d \<Rightarrow> d \<noteq> []"
    and rc: "recommended f \<noteq> Some False" and dc: "disconnected f \<noteq> Some False"
    by (auto simp add: wellFormed_def okField_def split: option.splits)
  note t = tail_parse_in [OF assms(2) ad rc dc]
  have k: "asc ''description:'' = 100 # asc ''escription:''" "asc ''url:'' = 117 # asc ''rl:''"
    "asc ''avatar:'' = 97 # asc ''vatar:''"
    by (simp_all add: asc_def)
  have ns: "\<not> isSpace 100" "\<not> isSpace 117" "\<not> isSpace 97" by (simp_all add: isSpace_def)
  have 1: "nameField (objTextIn sp f R) = Some (name f,
      44 # sp 2 @ asc ''description:'' @ sp 3 @ 34 # description f @ 34 #
      44 # sp 4 @ asc ''url:'' @ sp 5 @ 34 # url f @ 34 #
      44 # sp 6 @ asc ''avatar:'' @ sp 7 @ 34 # avatar f @ 34 #
      datePartIn sp f (recPartIn sp f (disPartIn sp f (sp 14 @ 125 # R))))"
    unfolding objTextIn_def by (rule nameField_ws) (simp_all add: s n)
  have 2: "keyedField (asc ''description:'')
      (44 # sp 2 @ asc ''description:'' @ sp 3 @ 34 # description f @ 34 # X) = Some (description f, X)" for X
    unfolding k by (rule keyedField_ws) (simp_all add: s d ns)
  have 3: "keyedField (asc ''url:'')
      (44 # sp 4 @ asc ''url:'' @ sp 5 @ 34 # url f @ 34 # X) = Some (url f, X)" for X
    unfolding k by (rule keyedField_ws) (simp_all add: s u ns)
  have 4: "keyedField (asc ''avatar:'')
      (44 # sp 6 @ asc ''avatar:'' @ sp 7 @ 34 # avatar f @ 34 # X) = Some (avatar f, X)" for X
    unfolding k by (rule keyedField_ws) (simp_all add: s a ns)
  show ?thesis
    unfolding objectAt_def
    by (simp add: 1 2 3 4 t closeBrace_ws s flag_true [OF rc] flag_true [OF dc]
          truthyStr_date [OF ad'])
qed


lemma findObjects_gap: "123 \<notin> set g \<Longrightarrow> findObjects (g @ R) = findObjects R"
  by (induction g) (simp_all add: findObjects_skip)

lemma findObjects_entryIn_text:
  assumes "wellFormed f" "spaces sp"
  shows "findObjects (entryTextIn sp f @ R) = f # findObjects R"
  by (subst findObjects.simps) (simp add: entryTextIn_objTextIn objectAt_objTextIn [OF assms])

lemma findObjects_bodyOf:
  assumes "list_all wellFormed fs"
      and "\<And>j. j \<le> k + length fs \<Longrightarrow> 123 \<notin> set (gap j)"
      and "\<And>j. j < k + length fs \<Longrightarrow> spaces (sp j)"
  shows "findObjects (bodyOf gap sp k fs) = fs"
  using assms
proof (induction fs arbitrary: k)
  case Nil
  from Nil(2) [of k] findObjects_gap [of "gap k" "[]"] show ?case
    by (simp add: findObjects_Nil)
next
  case (Cons f fs)
  have g: "123 \<notin> set (gap k)" using Cons.prems(2) [of k] by simp
  have s: "spaces (sp k)" using Cons.prems(3) [of k] by simp
  have w: "wellFormed f" "list_all wellFormed fs" using Cons.prems(1) by simp_all
  have "findObjects (bodyOf gap sp (Suc k) fs) = fs"
    using Cons.prems(2,3) by (intro Cons.IH w) simp_all
  then show ?case
    by (simp add: findObjects_gap [OF g] findObjects_entryIn_text [OF w(1) s])
qed

lemma noClose_no93: "93 \<notin> set X \<Longrightarrow> \<not> includesStr X closing"
  by (induction X) (auto simp add: includes_closing_Cons includes_closing_Nil simp del: includesStr.simps)

lemma safe_spaces:
  assumes "list_all isSpace ws"
  shows "safe ws"
proof -
  have a: "c \<noteq> 93 \<and> c \<noteq> 59" if "c \<in> set ws" for c
  proof -
    from that assms have "isSpace c" by (simp add: list_all_iff)
    then show ?thesis by (auto simp add: isSpace_def)
  qed
  then have "93 \<notin> set ws" by blast
  then have "\<not> includesStr ws closing" by (rule noClose_no93)
  moreover have "ws = [] \<or> (hd ws \<noteq> 59 \<and> last ws \<noteq> 93)"
  proof (cases "ws = []")
    case False
    then have "hd ws \<in> set ws" "last ws \<in> set ws" by simp_all
    with a show ?thesis by blast
  qed simp
  ultimately show ?thesis by (simp add: safe_def)
qed

lemma safe_keys:
  "safe (asc ''{'')" "safe (asc ''name:'')" "safe (asc '','')" "safe (asc ''description:'')"
  "safe (asc ''url:'')" "safe (asc ''avatar:'')" "safe (asc ''addDate:'')"
  "safe (asc ''recommended:'')" "safe (asc ''disconnected:'')" "safe (asc ''true'')"
  "safe (asc ''}'')"
  by (simp_all add: safe_def asc_def includes_closing_Cons includes_closing_Nil del: includesStr.simps)

lemma safe_entryTextIn:
  assumes "wellFormed f" "spaces sp"
  shows "safe (entryTextIn sp f)"
proof -
  note s = spaces_at [OF assms(2)]
  from assms(1) have q: "safe (quote (name f))" "safe (quote (description f))"
    "safe (quote (url f))" "safe (quote (avatar f))"
    by (simp_all add: wellFormed_def okField_def safe_quoted quote_def)
  have d: "safe (case addDate f of
          Some d \<Rightarrow> asc '','' @ sp 8 @ asc ''addDate:'' @ sp 9 @ quote d
        | None \<Rightarrow> [])"
  proof (cases "addDate f")
    case None
    then show ?thesis by (simp add: safe_Nil)
  next
    case (Some d)
    with assms(1) have qd: "safe (quote d)"
      by (simp add: wellFormed_def okField_def safe_quoted quote_def)
    have "safe (asc '','' @ sp 8 @ asc ''addDate:'' @ sp 9 @ quote d)"
      by (intro safe_append safe_keys qd safe_spaces s) simp_all
    with Some show ?thesis by simp
  qed
  have r1: "safe (asc '','' @ sp 10 @ asc ''recommended:'' @ sp 11 @ asc ''true'')"
    by (intro safe_append safe_keys safe_spaces s) simp_all
  have r2: "safe (asc '','' @ sp 12 @ asc ''disconnected:'' @ sp 13 @ asc ''true'')"
    by (intro safe_append safe_keys safe_spaces s) simp_all
  have r: "safe (if recommended f = Some True
        then asc '','' @ sp 10 @ asc ''recommended:'' @ sp 11 @ asc ''true'' else [])"
    "safe (if disconnected f = Some True
        then asc '','' @ sp 12 @ asc ''disconnected:'' @ sp 13 @ asc ''true'' else [])"
    using r1 r2 by (simp_all add: safe_Nil)
  show ?thesis
    unfolding entryTextIn_def
    by (intro safe_append safe_keys q d r safe_spaces s) simp_all
qed

lemma entryTextIn_ends:
  "entryTextIn sp f \<noteq> []" "hd (entryTextIn sp f) = 123" "last (entryTextIn sp f) = 125"
  by (simp_all add: entryTextIn_def asc_def)

lemma noClose_bodyOf:
  assumes "list_all wellFormed fs"
      and "\<And>j. j \<le> k + length fs \<Longrightarrow> \<not> includesStr (gap j) closing"
      and "\<And>j. j < k + length fs \<Longrightarrow> spaces (sp j)"
  shows "\<not> includesStr (bodyOf gap sp k fs) closing"
  using assms
proof (induction fs arbitrary: k)
  case Nil
  from Nil(2) [of k] show ?case by simp
next
  case (Cons f fs)
  have g: "\<not> includesStr (gap k) closing" using Cons.prems(2) [of k] by simp
  have s: "spaces (sp k)" using Cons.prems(3) [of k] by simp
  have w: "wellFormed f" "list_all wellFormed fs" using Cons.prems(1) by simp_all
  have b: "\<not> includesStr (bodyOf gap sp (Suc k) fs) closing"
    using Cons.prems(2,3) by (intro Cons.IH w) simp_all
  from safe_entryTextIn [OF w(1) s] have e: "\<not> includesStr (entryTextIn (sp k) f) closing"
    by (simp add: safe_def)
  note x = entryTextIn_ends [of "sp k" f]
  have eb: "\<not> includesStr (entryTextIn (sp k) f @ bodyOf gap sp (Suc k) fs) closing"
    using e b x by (simp add: includes_closing_append del: includesStr.simps)
  have "hd (entryTextIn (sp k) f @ bodyOf gap sp (Suc k) fs) = 123"
    using x by (simp add: hd_append)
  with g eb show ?case
    by (simp add: includes_closing_append del: includesStr.simps)
qed

lemma layoutOk_iff:
  "layoutOk gap sp n \<longleftrightarrow>
     (\<forall>k\<le>n. 123 \<notin> set (gap k) \<and> \<not> includesStr (gap k) closing) \<and> (\<forall>k<n. spaces (sp k))"
  by (auto simp add: layoutOk_def spaces_def list_all_iff less_Suc_eq_le simp del: includesStr.simps)

lemma parse_textOf:
  assumes "list_all wellFormed fs" "layoutOk gap sp (length fs)"
  shows "parseFriendsTs (textOf gap sp post fs) = Inr fs"
proof -
  let ?body = "bodyOf gap sp 0 fs"
  from assms(2) have g: "\<And>j. j \<le> 0 + length fs \<Longrightarrow> 123 \<notin> set (gap j)"
    and c: "\<And>j. j \<le> 0 + length fs \<Longrightarrow> \<not> includesStr (gap j) closing"
    and s: "\<And>j. j < 0 + length fs \<Longrightarrow> spaces (sp j)"
    by (simp_all add: layoutOk_iff del: includesStr.simps)
  have "\<not> includesStr ?body closing"
    by (rule noClose_bodyOf [OF assms(1) c s])
  then have "upTo closing (?body @ closing @ post) = Some ?body"
    by (rule upTo_closing)
  then have "matchHeader (fileHead @ ?body @ closing @ post) = Some (10 # ?body)"
    by (rule matchHeader_fileHead)
  moreover have "findObjects (10 # ?body) = fs"
    by (simp add: findObjects_skip findObjects_bodyOf [OF assms(1) g s])
  ultimately show ?thesis
    by (simp add: parseFriendsTs_def textOf_def closing_def)
qed


text \<open>
  The generated text is one of these texts: four spaces before an entry, a comma and a
  line break after it, and the white space of \<open>entryText\<close>.
\<close>

definition gapCanon :: "nat \<Rightarrow> nat \<Rightarrow> jsstring" where
  "gapCanon n k =
     (if k = n then asc '',\<newline>'' else if k = 0 then asc ''    '' else asc '',\<newline>    '')"

definition spCanon :: "nat \<Rightarrow> spacing" where
  "spCanon k p =
     (if p = 14 then asc ''\<newline>    '' else if even p then asc ''\<newline>        '' else asc '' '')"

lemma entryText_canon:
  assumes "addDate f \<noteq> Some []"
  shows "entryText f = asc ''    '' @ entryTextIn (spCanon k) f"
proof (cases "addDate f")
  case None
  then show ?thesis
    by (simp add: entryText_def entryTextIn_def spCanon_def quote_def truthy_iff asc_def)
next
  case (Some d)
  with assms have "truthyStr (Some d)" by (cases d) simp_all
  with Some show ?thesis
    by (simp add: entryText_def entryTextIn_def spCanon_def quote_def truthy_iff asc_def)
qed

lemma bodyOf_canon:
  assumes "list_all (\<lambda>f. addDate f \<noteq> Some []) fs" "k + length fs = n"
  shows "bodyOf (gapCanon n) spCanon k fs =
     (if fs = [] then asc '',\<newline>''
      else (if k = 0 then [] else asc '',\<newline>'') @ join (asc '',\<newline>'') (map entryText fs) @ asc '',\<newline>'')"
  using assms
proof (induction fs arbitrary: k)
  case Nil
  then show ?case by (simp add: gapCanon_def)
next
  case (Cons f fs)
  from Cons.prems have a: "addDate f \<noteq> Some []" and r: "list_all (\<lambda>f. addDate f \<noteq> Some []) fs"
    and k: "Suc k + length fs = n" "k \<noteq> n"
    by auto
  note ih = Cons.IH [OF r k(1)]
  have g: "gapCanon n k = (if k = 0 then [] else asc '',\<newline>'') @ asc ''    ''"
    using k(2) by (simp add: gapCanon_def asc_def)
  show ?case
  proof (cases fs)
    case Nil
    with ih show ?thesis
      by (simp add: g entryText_canon [OF a, of k])
  next
    case (Cons y ys)
    with ih show ?thesis
      by (simp add: g entryText_canon [OF a, of k])
  qed
qed

lemma generate_textOf:
  assumes "list_all (\<lambda>f. addDate f \<noteq> Some []) fs"
  shows "generateFriendsTs fs = textOf (gapCanon (length fs)) spCanon (asc ''\<newline>'') fs"
  using bodyOf_canon [OF assms, of 0 "length fs"]
  by (cases fs) (simp_all add: generateFriendsTs_def textOf_def asc_def)

lemma layoutOk_canon: "layoutOk (gapCanon n) spCanon n"
proof -
  have "123 \<notin> set (gapCanon n k) \<and> \<not> includesStr (gapCanon n k) closing" for k
    by (simp add: gapCanon_def asc_def includes_closing_simps del: includesStr.simps)
  moreover have "list_all isSpace (spCanon k p)" for k p
    by (simp add: spCanon_def asc_def isSpace_def)
  ultimately show ?thesis
    by (simp add: layoutOk_def list_all_iff del: includesStr.simps)
qed

text \<open>The sample texts.\<close>

lemma wellFormed_samples: "wellFormed friendDead" "wellFormed friendLost"
  by (simp_all add: wellFormed_def okField_def friendDead_def friendLost_def asc_def
        includes_closing_simps del: includesStr.simps)

lemma wellFormed_data: "wellFormed friendATao" "wellFormed friendLjx"
  by (simp_all add: wellFormed_def okField_def friendATao_def friendLjx_def asc_def
        includes_closing_simps del: includesStr.simps)

lemma bracket_text:
  "generateFriendsTs [friendBracket]
     = fileHead @ asc ''    {\<newline>        name: \"B\",\<newline>        description: \"a'' @ closing
       @ asc ''b\",\<newline>        url: \"https://b.example\",\<newline>        avatar: \"https://b.example/a.png\"\<newline>    },\<newline>];\<newline>''"
  by (simp add: generateFriendsTs_def entryText_def friendBracket_def closing_def asc_def)

lemma parse_bracket: "parseFriendsTs (generateFriendsTs [friendBracket]) = Inr []"
proof -
  let ?X = "asc ''    {\<newline>        name: \"B\",\<newline>        description: \"a''"
  have "\<not> includesStr ?X closing"
    by (rule noClose_no93) (simp add: asc_def)
  then have m: "matchHeader (generateFriendsTs [friendBracket]) = Some (10 # ?X)"
    unfolding bracket_text by (intro matchHeader_fileHead upTo_closing)
  have o: "objectAt (123 # asc ''\<newline>        name: \"B\",\<newline>        description: \"a'') = None"
    by (simp add: objectAt_def nameField_def keyedField_def commaKey_def quoted1_def quoted_def
          asc_def parse_simps isSpace_def)
  have g: "findObjects (asc ''\<newline>        name: \"B\",\<newline>        description: \"a'' @ []) = findObjects []"
    by (rule findObjects_gap) (simp add: asc_def)
  have "findObjects (10 # ?X) = findObjects (123 # asc ''\<newline>        name: \"B\",\<newline>        description: \"a'')"
    by (simp add: asc_def findObjects_skip)
  also have "\<dots> = findObjects (asc ''\<newline>        name: \"B\",\<newline>        description: \"a'')"
    by (subst findObjects.simps) (simp add: o)
  also have "\<dots> = []"
    using g by (simp add: findObjects_Nil)
  finally show ?thesis
    using m by (simp add: parseFriendsTs_def)
qed

lemma generate_empty_date:
  "generateFriendsTs [friendDead\<lparr>addDate := Some []\<rparr>] = generateFriendsTs [friendDead]"
  by (simp add: generateFriendsTs_def entryText_def friendDead_def)

lemma generate_inj_sample: "generateFriendsTs [] \<noteq> generateFriendsTs [friendBracket]"
  by (simp add: generateFriendsTs_def entryText_def asc_def)

lemma parse_dataText: "parseFriendsTs dataText = Inr [friendLjx]"
proof -
  define G where "G = asc ''\<newline>        name: \"ATao-Blog\",\<newline>        description: \"''
     @ [20570, 33258, 24049, 21916, 27426, 30340, 20107]
     @ asc ''\",\<newline>        url: \"https://blog.atao.cyou/\",\<newline>        avatar: \"https://cdn.atao.cyou/Web/Avatar.png\",\<newline>        addDate: \"2026-02-21\",\<newline>    },\<newline>''"
  define R where "R = entryText friendLjx @ asc '',\<newline>''"
  define body where "body = (asc ''    '' @ 123 # G) @ R"
  have d: "dataText = fileHead @ body @ closing @ asc ''\<newline>''"
    by (simp add: dataText_def body_def G_def R_def closing_def asc_def)
  have n1: "\<not> includesStr (asc ''    '' @ 123 # G) closing"
    by (rule noClose_no93) (simp add: G_def asc_def)
  have "safe R"
    unfolding R_def by (intro safe_append safe_entryText wellFormed_data safe_pieces)
  then have n2: "\<not> includesStr R closing" by (simp add: safe_def)
  have l: "last (asc ''    '' @ 123 # G) \<noteq> 93" by (simp add: G_def asc_def)
  have "\<not> includesStr body closing"
    unfolding body_def using n1 n2 l by (simp only: includes_closing_append) simp
  then have "upTo closing (body @ closing @ asc ''\<newline>'') = Some body"
    by (rule upTo_closing)
  then have m: "matchHeader dataText = Some (10 # body)"
    unfolding d by (rule matchHeader_fileHead)
  have o: "objectAt (123 # G @ R) = None"
    by (simp add: G_def objectAt_def nameField_def keyedField_def commaKey_def quoted1_def quoted_def
          optAddDate_def optFlag_def trueOrFalse_def asc_def parse_simps isSpace_def)
  have "findObjects (10 # body) = findObjects (123 # G @ R)"
    by (simp add: body_def asc_def findObjects_skip)
  also have "\<dots> = findObjects (G @ R)"
    by (subst findObjects.simps) (simp add: o)
  also have "\<dots> = findObjects R"
    by (rule findObjects_gap) (simp add: G_def asc_def)
  also have "\<dots> = [friendLjx]"
    unfolding R_def using findObjects_sep [of "[]"]
    by (simp add: findObjects_entry wellFormed_data findObjects_Nil)
  finally show ?thesis
    using m by (simp add: parseFriendsTs_def)
qed

section \<open>Round trip through the text\<close>

text \<open>
  C6, as stated: every entry sequence whose required fields are present and not empty and
  whose optional fields are the documented ones is parsed back from its generated text,
  and for a text of such a sequence generating after parsing gives the canonical text of
  the sequence. The generator writes a field between quotes as it is, and the parser ends
  a field at the next quote and the array at the next \<open>];\<close>. So the entry \<open>friendQuote\<close>,
  whose name holds a quote, and the entry \<open>friendBracket\<close>, whose description holds \<open>];\<close>,
  are lost on the way back; the text generated from \<open>friendBracket\<close> is the canonical text
  of one entry, and generating after parsing it gives the text of no entry. An entry
  whose \<open>addDate\<close> is the empty string comes back without \<open>addDate\<close>: the generator writes
  the field only when \<open>f.addDate\<close> is truthy.
\<close>

theorem unescaped_text_breaks_roundtrip_counterexample:
  "name friendQuote \<noteq> [] \<and> description friendQuote \<noteq> []
   \<and> url friendQuote \<noteq> [] \<and> avatar friendQuote \<noteq> []
   \<and> addDate friendQuote = None \<and> recommended friendQuote = None \<and> disconnected friendQuote = None
   \<and> parseFriendsTs (generateFriendsTs [friendQuote]) = Inr []
   \<and> parseFriendsTs (generateFriendsTs [friendQuote]) \<noteq> Inr [friendQuote]
   \<and> name friendBracket \<noteq> [] \<and> description friendBracket \<noteq> []
   \<and> url friendBracket \<noteq> [] \<and> avatar friendBracket \<noteq> []
   \<and> addDate friendBracket = None \<and> recommended friendBracket = None
   \<and> disconnected friendBracket = None
   \<and> parseFriendsTs (generateFriendsTs [friendBracket]) = Inr []
   \<and> parseFriendsTs (generateFriendsTs [friendBracket]) \<noteq> Inr [friendBracket]
   \<and> generateFriendsTs [] \<noteq> generateFriendsTs [friendBracket]
   \<and> parseFriendsTs (generateFriendsTs [friendDead\<lparr>addDate := Some []\<rparr>]) = Inr [friendDead]
   \<and> parseFriendsTs (generateFriendsTs [friendDead\<lparr>addDate := Some []\<rparr>])
        \<noteq> Inr [friendDead\<lparr>addDate := Some []\<rparr>]"
proof -
  let ?body = "entryText friendQuote @ asc '',\<newline>''"
  have s: "\<not> includesStr ?body closing"
    unfolding entryText_friendQuote
    by (simp add: asc_def includes_closing_simps del: includesStr.simps)
  then have "upTo closing (?body @ closing @ asc ''\<newline>'') = Some ?body"
    by (rule upTo_closing)
  then have m: "matchHeader (generateFriendsTs [friendQuote]) = Some (10 # ?body)"
    unfolding generate_shape by (simp add: matchHeader_fileHead del: upTo.simps)
  have o: "objectAt (123 # asc ''\<newline>        name: \"a\"b\",\<newline>        description: \"d\",\<newline>        url: \"https://q.example\",\<newline>        avatar: \"https://q.example/a.png\"\<newline>    }'' @ asc '',\<newline>'') = None"
    by (simp add: objectAt_def nameField_def keyedField_def commaKey_def quoted1_def quoted_def
          asc_def parse_simps isSpace_def)
  have f: "findObjects (10 # ?body) = []"
    unfolding entryText_friendQuote
    apply (simp add: asc_def findObjects_skip)
    apply (subst findObjects.simps)
    apply (simp add: o [unfolded asc_def, simplified] findObjects_skip findObjects_Nil)
    done
  from m f have q: "parseFriendsTs (generateFriendsTs [friendQuote]) = Inr []"
    by (simp add: parseFriendsTs_def)
  have e: "parseFriendsTs (generateFriendsTs [friendDead\<lparr>addDate := Some []\<rparr>]) = Inr [friendDead]"
    unfolding generate_empty_date by (rule parse_generate) (simp add: wellFormed_samples)
  have ne: "friendDead \<noteq> friendDead\<lparr>addDate := Some []\<rparr>"
    by (simp add: friendDead_def)
  have sh: "name friendQuote \<noteq> [] \<and> description friendQuote \<noteq> []
     \<and> url friendQuote \<noteq> [] \<and> avatar friendQuote \<noteq> []
     \<and> addDate friendQuote = None \<and> recommended friendQuote = None \<and> disconnected friendQuote = None
     \<and> name friendBracket \<noteq> [] \<and> description friendBracket \<noteq> []
     \<and> url friendBracket \<noteq> [] \<and> avatar friendBracket \<noteq> []
     \<and> addDate friendBracket = None \<and> recommended friendBracket = None
     \<and> disconnected friendBracket = None"
    by (simp add: friendQuote_def friendBracket_def asc_def)
  from sh q parse_bracket generate_inj_sample e ne show ?thesis
    by simp
qed

text \<open>
  C6, amended. A sequence of entries that are well formed in the sense of \<open>wellFormed\<close>
  (the conditions of the claim and, in addition, no field holds a quote or the text \<open>];\<close>
  and \<open>addDate\<close> is not empty when present) is parsed back from its generated text. And
  every text \<open>textOf gap sp post fs\<close> that holds such a sequence \<open>fs\<close>, in any layout with
  \<open>layoutOk\<close>, is parsed to \<open>fs\<close>, so that generating after parsing gives
  \<open>generateFriendsTs fs\<close>, the canonical text of the sequence, byte for byte.
\<close>

theorem roundtrip_of_entries_the_text_carries:
  assumes "list_all wellFormed fs" and "layoutOk gap sp (length fs)"
  shows "parseFriendsTs (generateFriendsTs fs) = Inr fs
       \<and> (case parseFriendsTs (textOf gap sp post fs) of
            Inr es \<Rightarrow> es = fs \<and> generateFriendsTs es = generateFriendsTs fs
          | Inl err \<Rightarrow> False)"
  using parse_generate [OF assms(1)] parse_textOf [OF assms] by simp

theorem roundtrip_of_entries_the_text_carries_witness:
  "list_all wellFormed [friendDead, friendLost]
   \<and> layoutOk gapLine spOne (length [friendDead, friendLost])
   \<and> textOf gapLine spOne (asc ''\<newline>'') [friendDead, friendLost]
       = fileHead
         @ asc ''  { name: \"Y\", description: \"gone\", url: \"https://dead.example\", avatar: \"https://dead.example/a.png\" },\<newline>''
         @ asc ''  { name: \"Luxynth\", description: \"blog\", url: \"https://www.luxynth.cn\", avatar: \"https://www.luxynth.cn/assets/images/avatar.jpg\", addDate: \"2025-09-09\", disconnected: true },\<newline>''
         @ asc ''// more\<newline>];\<newline>''
   \<and> parseFriendsTs (generateFriendsTs [friendDead, friendLost]) = Inr [friendDead, friendLost]
   \<and> parseFriendsTs (textOf gapLine spOne (asc ''\<newline>'') [friendDead, friendLost])
       = Inr [friendDead, friendLost]"
proof -
  have w: "list_all wellFormed [friendDead, friendLost]"
    by (simp add: wellFormed_samples)
  have l: "layoutOk gapLine spOne (length [friendDead, friendLost])"
    by (simp add: layoutOk_def gapLine_def spOne_def upt_rec asc_def isSpace_def
          includes_closing_simps del: includesStr.simps)
  have t: "textOf gapLine spOne (asc ''\<newline>'') [friendDead, friendLost]
       = fileHead
         @ asc ''  { name: \"Y\", description: \"gone\", url: \"https://dead.example\", avatar: \"https://dead.example/a.png\" },\<newline>''
         @ asc ''  { name: \"Luxynth\", description: \"blog\", url: \"https://www.luxynth.cn\", avatar: \"https://www.luxynth.cn/assets/images/avatar.jpg\", addDate: \"2025-09-09\", disconnected: true },\<newline>''
         @ asc ''// more\<newline>];\<newline>''"
    by (simp add: textOf_def entryTextIn_def gapLine_def spOne_def quote_def friendDead_def
          friendLost_def asc_def)
  from roundtrip_of_entries_the_text_carries [OF w l, of "asc ''\<newline>''"] w l t
  show ?thesis
    by (simp only: simp_thms split: sum.splits)
qed

text \<open>
  The data file of the repository is not one of these texts: the last field of its first
  entry is followed by a comma, and \<open>objectRegex\<close> has no place for a comma before the
  closing brace. The entry is not found, and a run that rewrites the data file writes it
  without this entry. Without the comma both entries are found.
\<close>

lemma trailing_comma_entry_dropped:
  "parseFriendsTs dataText = Inr [friendLjx]
   \<and> parseFriendsTs (generateFriendsTs [friendATao, friendLjx]) = Inr [friendATao, friendLjx]"
  using parse_dataText parse_generate [of "[friendATao, friendLjx]"]
  by (simp add: wellFormed_data)

section \<open>The exit code\<close>

lemma main_parsed:
  assumes "readData e = Inr content" and "parseFriendsTs content = Inr friends"
  shows "fst (main e w) = afterChecks e friends (fst (checkAll e friends w))"
  using assms by (simp add: main_def split: prod.splits)

text \<open>
  C5. The list of failing entries is not empty exactly when the exit code is not zero.
  \<open>main\<close> ends with \<open>process.exit(1)\<close> in the branch that built the list, after the two
  writes. In the run \<open>env_dead\<close> the writes succeed and the process exits with code 1. In
  the run \<open>env_readonly\<close>, with the same entry and the same network, the write of
  \<open>OUTPUT_PATH\<close> rejects: the list has been built, \<open>main\<close> rejects before it reaches
  \<open>process.exit(1)\<close>, the handler \<open>main().catch(console.error)\<close> prints the error and
  the process ends with exit code 0.
\<close>

theorem failed_write_exits_zero:
  "disconnectedList (fst (main env_readonly world0))
     = [\<lparr>d_name = asc ''Y'', d_url = asc ''https://dead.example'',
          d_reason = asc ''URL: error (fetch failed), Avatar: error''\<rparr>]
   \<and> exitCode (fst (main env_readonly world0)) = 0
   \<and> disconnectedList (fst (main env_dead world0))
     = [\<lparr>d_name = asc ''Y'', d_url = asc ''https://dead.example'',
          d_reason = asc ''URL: error (fetch failed), Avatar: error''\<rparr>]
   \<and> exitCode (fst (main env_dead world0)) = 1"
proof -
  have r: "readData env_readonly = Inr (generateFriendsTs [friendDead])"
    "readData env_dead = Inr (generateFriendsTs [friendDead])"
    by (simp_all add: env_readonly_def env_dead_def)
  have p: "parseFriendsTs (generateFriendsTs [friendDead]) = Inr [friendDead]"
    by (rule parse_generate) (simp add: wellFormed_samples)
  have nd: "\<not> truthy (disconnected friendDead)" by (simp add: friendDead_def)
  have net: "net env_readonly n u = Inl refused" "net env_dead n u = Inl refused" for n u
    by (simp_all add: env_readonly_def env_dead_def env_refused_def)
  have "fst (checkLink env_readonly friendDead world0) = resultDead"
    by (simp add: checkLink_refused_net [OF nd net(1)]) (simp add: friendDead_def resultDead_def)
  then have c1: "fst (checkAll env_readonly [friendDead] world0) = [resultDead]"
    by (simp add: checkAll_Cons del: checkAll.simps(2))
  have "fst (checkLink env_dead friendDead world0) = resultDead"
    by (simp add: checkLink_refused_net [OF nd net(2)]) (simp add: friendDead_def resultDead_def)
  then have c2: "fst (checkAll env_dead [friendDead] world0) = [resultDead]"
    by (simp add: checkAll_Cons del: checkAll.simps(2))
  have w: "writeFails env_readonly OUTPUT_PATH"
    "\<not> writeFails env_dead OUTPUT_PATH" "\<not> writeFails env_dead DATA_PATH"
    by (simp_all add: env_readonly_def env_dead_def env_refused_def)
  have d: "disconnectedInfo resultDead
           = \<lparr>d_name = asc ''Y'', d_url = asc ''https://dead.example'',
               d_reason = asc ''URL: error (fetch failed), Avatar: error''\<rparr>"
    by (simp add: disconnectedInfo_def issues_def resultDead_def asc_def)
  have m1: "fst (main env_readonly world0) = afterChecks env_readonly [friendDead] [resultDead]"
    by (simp only: main_parsed [OF r(1) p] c1)
  have m2: "fst (main env_dead world0) = afterChecks env_dead [friendDead] [resultDead]"
    by (simp only: main_parsed [OF r(2) p] c2)
  have a1: "disconnectedList (afterChecks env_readonly [friendDead] [resultDead])
              = [disconnectedInfo resultDead]
            \<and> exitCode (afterChecks env_readonly [friendDead] [resultDead]) = 0"
    by (simp add: afterChecks_def sample_facts(1) w)
  have a2: "disconnectedList (afterChecks env_dead [friendDead] [resultDead])
              = [disconnectedInfo resultDead]
            \<and> exitCode (afterChecks env_dead [friendDead] [resultDead]) = 1"
    by (simp add: afterChecks_def Let_def sample_facts(1) w)
  from a1 a2 show ?thesis by (simp only: m1 m2 d)
qed

end
